theory Spec2Isabelle
  imports Main "HOL-Library.Sublist"
begin

section \<open>Strings and arrays as the JavaScript runtime treats them\<close>

text \<open>
  A JavaScript string is modelled as a \<^typ>\<open>string\<close>, one \<^typ>\<open>char\<close> per code unit.
  The library functions the sources call are written out for the ASCII range; a code
  unit outside it is left as it is by \<open>toLowerCase\<close> and is no white space for
  \<open>trim\<close>.
\<close>

definition NL :: string where
  "NL = [CHR 0x0A]"

text \<open>\<open>s.includes(p)\<close> (the name is suffixed: it is a keyword here): \<open>p\<close> occurs in \<open>s\<close> as a contiguous run of code units.\<close>

fun str_includes :: "string \<Rightarrow> string \<Rightarrow> bool" where
  "str_includes [] p = (p = [])"
| "str_includes (c # cs) p = (prefix p (c # cs) \<or> str_includes cs p)"

definition startsWith :: "string \<Rightarrow> string \<Rightarrow> bool" where
  "startsWith s p = prefix p s"

text \<open>
  \<open>xs.slice(start)\<close> on an array or a string: a negative start counts from the end,
  and both ends are clamped to the length. \<open>slice(-0)\<close> is \<open>slice(0)\<close>.
\<close>

definition slice_from :: "int \<Rightarrow> 'a list \<Rightarrow> 'a list" where
  "slice_from start xs =
     (let len = int (length xs);
          k = (if start < 0 then max (len + start) 0 else min start len)
      in drop (nat k) xs)"

text \<open>\<open>xs.join(sep)\<close> on an array of strings.\<close>

fun join :: "string \<Rightarrow> string list \<Rightarrow> string" where
  "join sep [] = []"
| "join sep [x] = x"
| "join sep (x # y # ys) = x @ sep @ join sep (y # ys)"

definition is_upper :: "char \<Rightarrow> bool" where
  "is_upper c = (65 \<le> (of_char c :: nat) \<and> (of_char c :: nat) \<le> 90)"

definition lower_char :: "char \<Rightarrow> char" where
  "lower_char c = (if is_upper c then char_of ((of_char c :: nat) + 32) else c)"

definition toLowerCase :: "string \<Rightarrow> string" where
  "toLowerCase s = map lower_char s"

definition is_space :: "char \<Rightarrow> bool" where
  "is_space c = ((of_char c :: nat) \<in> {9, 10, 11, 12, 13, 32})"

definition trim :: "string \<Rightarrow> string" where
  "trim s = rev (dropWhile is_space (rev (dropWhile is_space s)))"

text \<open>Decimal rendering of a number inside a template literal.\<close>

fun digit_char :: "nat \<Rightarrow> char" where
  "digit_char n = char_of (48 + n mod 10)"

fun show_nat_acc :: "nat \<Rightarrow> nat \<Rightarrow> string \<Rightarrow> string" where
  "show_nat_acc 0 n acc = acc"
| "show_nat_acc (Suc fuel) n acc =
     (if n < 10 then digit_char n # acc
      else show_nat_acc fuel (n div 10) (digit_char n # acc))"

definition show_nat :: "nat \<Rightarrow> string" where
  "show_nat n = show_nat_acc (Suc n) n []"

definition show_int :: "int \<Rightarrow> string" where
  "show_int i = (if i < 0 then CHR ''-'' # show_nat (nat (- i)) else show_nat (nat i))"


section \<open>Session log (\<open>session.ts\<close>)\<close>

datatype role = User | Model | ToolCall | ToolResult | System

record LogEntry =
  timestamp :: string
  role :: role
  content :: string
  metadata :: "(string \<times> string) list option"

text \<open>The two roles the model API accepts, and one block of the history sent to it.\<close>

datatype chat_role = ChatUser | ChatModel

record Content =
  chat_role :: chat_role
  parts :: "string list"

text \<open>
  \<open>Session.recentEntries\<close>. \<open>contextTurns\<close> is \<open>config.contextTurns\<close>, the integer
  that \<open>parseInt\<close> read from the environment (50 when the variable is unset). A value
  that does not parse is \<open>NaN\<close>: the comparison is then false and \<open>slice(NaN)\<close> is
  \<open>slice(0)\<close>, which is what this model computes for \<open>contextTurns = 0\<close> on every log.
\<close>

definition recentEntries :: "int \<Rightarrow> LogEntry list \<Rightarrow> LogEntry list" where
  "recentEntries contextTurns entries =
     (let maxEntries = contextTurns * 2 in
      if int (length entries) \<le> maxEntries then entries
      else
        let first = (case entries of
                       [] \<Rightarrow> []
                     | e # _ \<Rightarrow> if role e = System then [e] else []);
            recent = slice_from (- maxEntries) entries
        in first @ recent)"

text \<open>The first loop of \<open>toGeminiHistory\<close>: one block per entry, system entries skipped.\<close>

fun history_of :: "LogEntry list \<Rightarrow> Content list" where
  "history_of [] = []"
| "history_of (entry # rest) =
     (if role entry = User then
        \<lparr>chat_role = ChatUser, parts = [content entry]\<rparr> # history_of rest
      else if role entry = Model then
        \<lparr>chat_role = ChatModel, parts = [content entry]\<rparr> # history_of rest
      else if role entry = ToolCall then
        \<lparr>chat_role = ChatModel, parts = [''[Tool Call] '' @ content entry]\<rparr> # history_of rest
      else if role entry = ToolResult then
        \<lparr>chat_role = ChatUser, parts = [''[Tool Result] '' @ content entry]\<rparr> # history_of rest
      else history_of rest)"

text \<open>\<open>while (history.length > 0 && history[0].role === "model") history.shift()\<close>\<close>

fun shift_leading_model :: "Content list \<Rightarrow> Content list" where
  "shift_leading_model [] = []"
| "shift_leading_model (b # bs) =
     (if chat_role b = ChatModel then shift_leading_model bs else b # bs)"

text \<open>The merge loop: \<open>merged\<close> is the accumulator, the second argument what is left of \<open>history\<close>.\<close>

fun merge_loop :: "Content list \<Rightarrow> Content list \<Rightarrow> Content list" where
  "merge_loop merged [] = merged"
| "merge_loop merged (entry # rest) =
     (if merged \<noteq> [] \<and> chat_role (last merged) = chat_role entry then
        merge_loop
          (butlast merged @ [(last merged)\<lparr>parts := parts (last merged) @ parts entry\<rparr>]) rest
      else merge_loop (merged @ [entry]) rest)"

text \<open>\<open>while (merged.length > 0 && merged[merged.length - 1].role === "user") merged.pop()\<close>\<close>

function pop_trailing_user :: "Content list \<Rightarrow> Content list" where
  "pop_trailing_user merged =
     (if merged \<noteq> [] \<and> chat_role (last merged) = ChatUser
      then pop_trailing_user (butlast merged) else merged)"
  by pat_completeness auto
termination
  by (relation "measure length") auto

declare pop_trailing_user.simps [simp del]

definition toGeminiHistory :: "int \<Rightarrow> LogEntry list \<Rightarrow> Content list" where
  "toGeminiHistory contextTurns entries =
     pop_trailing_user
       (merge_loop [] (shift_leading_model (history_of (recentEntries contextTurns entries))))"


section \<open>Retry with backoff (\<open>withRetry\<close> in \<open>cli.ts\<close>)\<close>

definition isRateLimit :: "string \<Rightarrow> bool" where
  "isRateLimit msg =
     (str_includes msg ''429'' \<or> str_includes msg ''quota'' \<or>
      str_includes msg ''Resource exhausted'')"

text \<open>
  The regular expression \<open>/retry.*?(\d+)\.?\d*s/i\<close>, matched as the runtime's
  backtracking matcher does it: the leftmost start, the lazy \<open>.*?\<close> trying the
  shortest skip first and never crossing a line terminator, the greedy \<open>\d+\<close>,
  \<open>\.?\<close> and \<open>\d*\<close> trying the longest choice first. The result is capture group 1.
\<close>

definition is_digit :: "char \<Rightarrow> bool" where
  "is_digit c = (48 \<le> (of_char c :: nat) \<and> (of_char c :: nat) \<le> 57)"

definition is_line_terminator :: "char \<Rightarrow> bool" where
  "is_line_terminator c = ((of_char c :: nat) \<in> {10, 13})"

text \<open>A literal of the pattern at the start of the text, letters compared ignoring case.\<close>

fun iprefix :: "string \<Rightarrow> string \<Rightarrow> bool" where
  "iprefix [] s = True"
| "iprefix (p # ps) [] = False"
| "iprefix (p # ps) (c # cs) = (lower_char p = lower_char c \<and> iprefix ps cs)"

text \<open>\<open>\d*s\<close>: every length of the digit run, longest first, then the letter \<open>s\<close>.\<close>

definition digits_then_s :: "string \<Rightarrow> bool" where
  "digits_then_s r =
     list_ex (\<lambda>k. iprefix ''s'' (drop k r)) (rev [0..<Suc (length (takeWhile is_digit r))])"

text \<open>\<open>\.?\d*s\<close>: with the dot first, then without it.\<close>

definition match_rest :: "string \<Rightarrow> bool" where
  "match_rest r =
     ((case r of [] \<Rightarrow> False | c # r' \<Rightarrow> c = CHR ''.'' \<and> digits_then_s r') \<or> digits_then_s r)"

text \<open>\<open>(\d+)\.?\d*s\<close> at the start of the text: the captured digits.\<close>

definition match_digits :: "string \<Rightarrow> string option" where
  "match_digits r =
     map_option (\<lambda>n. take n r)
       (find (\<lambda>n. match_rest (drop n r)) (rev [1..<Suc (length (takeWhile is_digit r))]))"

fun match_lazy :: "string \<Rightarrow> string option" where
  "match_lazy [] = match_digits []"
| "match_lazy (c # r) =
     (case match_digits (c # r) of
        Some g \<Rightarrow> Some g
      | None \<Rightarrow> if is_line_terminator c then None else match_lazy r)"

fun retryMatch :: "string \<Rightarrow> string option" where
  "retryMatch [] = None"
| "retryMatch (c # cs) =
     (case (if iprefix ''retry'' (c # cs) then match_lazy (drop 5 (c # cs)) else None) of
        Some g \<Rightarrow> Some g
      | None \<Rightarrow> retryMatch cs)"

text \<open>
  \<open>Number(retryMatch[1])\<close> on a run of decimal digits (exact as long as the value is
  below \<open>2^53\<close>, where the runtime's numbers start to round).
\<close>

definition Number :: "string \<Rightarrow> nat" where
  "Number ds = foldl (\<lambda>acc c. 10 * acc + ((of_char c :: nat) - 48)) 0 ds"

text \<open>
  \<open>retryMatch ? Math.ceil(Number(retryMatch[1])) + 2 : 10 * (attempt + 1)\<close>.
  The argument of \<open>Math.ceil\<close> is the number of a digit string, a whole number, which
  \<open>Math.ceil\<close> returns as it is.
\<close>

definition waitSec :: "string \<Rightarrow> nat \<Rightarrow> nat" where
  "waitSec msg attempt =
     (case retryMatch msg of
        Some g \<Rightarrow> Number g + 2
      | None \<Rightarrow> 10 * (attempt + 1))"

text \<open>
  \<open>withRetry(fn, label, maxRetries)\<close> over an explicit state \<open>'s\<close>: \<open>fn\<close> returns
  \<open>Inr\<close> a value or \<open>Inl\<close> the message of the error it throws (\<open>err.message || ""\<close>),
  \<open>sleep ms\<close> is the pause. The third argument of the loop counts the retries left, so
  \<open>attempt = maxRetries - left\<close>; with none left the error is thrown on.
\<close>

fun withRetry_loop ::
  "('s \<Rightarrow> (string + 'a) \<times> 's) \<Rightarrow> (nat \<Rightarrow> 's \<Rightarrow> 's) \<Rightarrow> nat \<Rightarrow> nat \<Rightarrow> 's \<Rightarrow> (string + 'a) \<times> 's"
where
  "withRetry_loop fn sleep maxRetries 0 s = fn s"
| "withRetry_loop fn sleep maxRetries (Suc left) s =
     (case fn s of
        (Inr v, s') \<Rightarrow> (Inr v, s')
      | (Inl msg, s') \<Rightarrow>
          if isRateLimit msg then
            withRetry_loop fn sleep maxRetries left
              (sleep (waitSec msg (maxRetries - Suc left) * 1000) s')
          else (Inl msg, s'))"

definition withRetry ::
  "('s \<Rightarrow> (string + 'a) \<times> 's) \<Rightarrow> (nat \<Rightarrow> 's \<Rightarrow> 's) \<Rightarrow> nat \<Rightarrow> 's \<Rightarrow> (string + 'a) \<times> 's"
where
  "withRetry fn sleep maxRetries s = withRetry_loop fn sleep maxRetries maxRetries s"


section \<open>Browser session (\<open>chromeClient.ts\<close>)\<close>

record TabInfo =
  tab_id :: string
  title :: string
  url :: string
  webSocketDebuggerUrl :: "string option"

text \<open>
  The state of a \<open>ChromeClient\<close>. A debugger connection is identified by the id of the
  target it was opened on.
\<close>

record ChromeClient =
  client :: "string option"
  currentTab :: "TabInfo option"

text \<open>
  What the browser answers during one call of \<open>ensureConnected\<close>: whether the probe
  \<open>Runtime.evaluate({expression: "1"})\<close> resolves, what \<open>listTabs()\<close> returns or throws,
  and for a target id the message of the error that opening the connection and
  enabling the three domains throws, if any.
\<close>

record browser =
  probe_alive :: bool
  listTabs_result :: "string + TabInfo list"
  connect_error :: "string \<Rightarrow> string option"

text \<open>The body of the inner \<open>try\<close> of \<open>ensureConnected\<close>: the tab reconnected to, or the error.\<close>

definition reconnect :: "browser \<Rightarrow> string \<Rightarrow> string + TabInfo" where
  "reconnect b tabId =
     (case listTabs_result b of
        Inl msg \<Rightarrow> Inl msg
      | Inr tabs \<Rightarrow>
          (case (case find (\<lambda>t. tab_id t = tabId) tabs of
                   Some t \<Rightarrow> Some t
                 | None \<Rightarrow> (case tabs of [] \<Rightarrow> None | t0 # _ \<Rightarrow> Some t0)) of
             None \<Rightarrow> Inl ''Tab no longer exists''
           | Some tab \<Rightarrow>
               (case connect_error b (tab_id tab) of
                  Some msg \<Rightarrow> Inl msg
                | None \<Rightarrow> Inr tab)))"

definition ensureConnected :: "browser \<Rightarrow> ChromeClient \<Rightarrow> (string + string) \<times> ChromeClient" where
  "ensureConnected b st =
     (case client st of
        None \<Rightarrow>
          (Inl ''Not connected to any Chrome tab. Use chrome_list_tabs and chrome_attach first.'', st)
      | Some c \<Rightarrow>
          if probe_alive b then (Inr c, st)
          else
            (case currentTab st of
               None \<Rightarrow> (Inl ''Lost connection to Chrome tab. Use /tabs and /attach to reconnect.'', st)
             | Some cur \<Rightarrow>
                 (case reconnect b (tab_id cur) of
                    Inl msg \<Rightarrow>
                      (Inl (''Lost connection to Chrome tab and could not reconnect: '' @ msg),
                       st\<lparr>client := None, currentTab := None\<rparr>)
                  | Inr tab \<Rightarrow>
                      (Inr (tab_id tab), st\<lparr>client := Some (tab_id tab), currentTab := Some tab\<rparr>))))"

subsection \<open>\<open>click\<close>\<close>

text \<open>
  The page as the click script sees it. \<open>querySelector\<close> is the browser's selector
  engine: it throws on a text that is no selector, and otherwise returns the first
  matching element or \<open>null\<close>. \<open>candidates\<close> is the result of
  \<open>querySelectorAll('a, button, [role="button"], input[type="submit"], input[type="button"]')\<close>
  and \<open>allElements\<close> that of \<open>querySelectorAll('*')\<close>, both in document order.
\<close>

record element =
  node_id :: nat
  tagName :: string
  textContent :: string
  ariaLabel :: "string option"
  valueAttr :: "string option"
  offsetParent :: bool

datatype query = SyntaxError | Matched "element option"

record page =
  querySelector :: "string \<Rightarrow> query"
  candidates :: "element list"
  allElements :: "element list"

datatype dom_effect = ScrollIntoView nat | Click nat

text \<open>\<open>a || b\<close> on strings that may be \<open>null\<close>.\<close>

definition js_or :: "string option \<Rightarrow> string option \<Rightarrow> string option" where
  "js_or a b = (case a of None \<Rightarrow> b | Some s \<Rightarrow> if s = [] then b else Some s)"

text \<open>\<open>c.textContent || c.getAttribute('aria-label') || c.getAttribute('value') || ''\<close>\<close>

definition candidate_label :: "element \<Rightarrow> string" where
  "candidate_label c =
     (case js_or (js_or (js_or (Some (textContent c)) (ariaLabel c)) (valueAttr c)) (Some []) of
        None \<Rightarrow> []
      | Some s \<Rightarrow> s)"

definition by_selector :: "page \<Rightarrow> string \<Rightarrow> element option" where
  "by_selector pg selectorOrText =
     (case querySelector pg selectorOrText of SyntaxError \<Rightarrow> None | Matched el \<Rightarrow> el)"

definition by_text :: "page \<Rightarrow> string \<Rightarrow> element option" where
  "by_text pg selectorOrText =
     (let searchText = trim (toLowerCase selectorOrText) in
      find (\<lambda>c. let t = trim (toLowerCase (candidate_label c))
                in t = searchText \<or> str_includes t searchText)
        (candidates pg))"

definition by_exact_text :: "page \<Rightarrow> string \<Rightarrow> element option" where
  "by_exact_text pg selectorOrText =
     (let searchText = trim (toLowerCase selectorOrText) in
      find (\<lambda>c. trim (toLowerCase (textContent c)) = searchText \<and> offsetParent c)
        (allElements pg))"

text \<open>The element the script ends up with: each step runs only if \<open>el\<close> is still unset.\<close>

definition click_target :: "page \<Rightarrow> string \<Rightarrow> element option" where
  "click_target pg selectorOrText =
     (case by_selector pg selectorOrText of
        Some el \<Rightarrow> Some el
      | None \<Rightarrow>
          (case by_text pg selectorOrText of
             Some el \<Rightarrow> Some el
           | None \<Rightarrow> by_exact_text pg selectorOrText))"

definition click_script :: "page \<Rightarrow> string \<Rightarrow> string \<times> dom_effect list" where
  "click_script pg selectorOrText =
     (case click_target pg selectorOrText of
        None \<Rightarrow> (''ERROR: Could not find element matching: '' @ selectorOrText, [])
      | Some el \<Rightarrow>
          (''Clicked: '' @ tagName el @ '' '' @ [CHR 0x22] @ take 80 (trim (textContent el)) @
             [CHR 0x22],
           [ScrollIntoView (node_id el), Click (node_id el)]))"

text \<open>
  \<open>ChromeClient.click\<close>: the connection is ensured, the script runs in the page, and an
  empty result is reported as a failed click. An error of the evaluation call itself
  is not part of the model.
\<close>

definition click ::
  "browser \<Rightarrow> page \<Rightarrow> ChromeClient \<Rightarrow> string \<Rightarrow> (string + string) \<times> ChromeClient \<times> dom_effect list"
where
  "click b pg st selectorOrText =
     (case ensureConnected b st of
        (Inl err, st') \<Rightarrow> (Inl err, st', [])
      | (Inr c, st') \<Rightarrow>
          (case click_script pg selectorOrText of
             (r, fx) \<Rightarrow> (Inr (if r = [] then ''Click failed.'' else r), st', fx)))"


section \<open>Tool router and file tools (\<open>tools.ts\<close>)\<close>

text \<open>A value of an argument record, as the model supplies it.\<close>

datatype jsval = JString string | JNumber int | JBoolean bool

type_synonym args = "(string \<times> jsval) list"

text \<open>\<open>args.key\<close>: \<open>None\<close> is \<open>undefined\<close>.\<close>

definition arg :: "args \<Rightarrow> string \<Rightarrow> jsval option" where
  "arg a k = map_of a k"

definition truthy :: "jsval option \<Rightarrow> bool" where
  "truthy v =
     (case v of
        None \<Rightarrow> False
      | Some (JString s) \<Rightarrow> s \<noteq> []
      | Some (JNumber n) \<Rightarrow> n \<noteq> 0
      | Some (JBoolean b) \<Rightarrow> b)"

text \<open>A value inside a template literal.\<close>

definition to_str :: "jsval option \<Rightarrow> string" where
  "to_str v =
     (case v of
        None \<Rightarrow> ''undefined''
      | Some (JString s) \<Rightarrow> s
      | Some (JNumber n) \<Rightarrow> show_int n
      | Some (JBoolean b) \<Rightarrow> if b then ''true'' else ''false'')"

subsection \<open>\<open>edit_file\<close>\<close>

text \<open>
  \<open>s.split(sep)\<close>: an empty separator gives the code units one by one; otherwise the
  pieces between the occurrences of \<open>sep\<close> found from left to right, each search
  starting after the previous occurrence.
\<close>

function split_loop :: "string \<Rightarrow> string \<Rightarrow> string \<Rightarrow> string list" where
  "split_loop sep [] cur = [cur]"
| "split_loop sep (c # cs) cur =
     (if sep \<noteq> [] \<and> prefix sep (c # cs)
      then cur # split_loop sep (drop (length sep) (c # cs)) []
      else split_loop sep cs (cur @ [c]))"
  by pat_completeness auto
termination
  by (relation "measure (\<lambda>(sep, rest, cur). length rest)") auto

definition split :: "string \<Rightarrow> string \<Rightarrow> string list" where
  "split s sep = (if sep = [] then map (\<lambda>c. [c]) s else split_loop sep s [])"

text \<open>\<open>s.indexOf(p)\<close>, \<open>None\<close> for \<open>-1\<close>.\<close>

fun indexOf :: "string \<Rightarrow> string \<Rightarrow> nat option" where
  "indexOf [] p = (if p = [] then Some 0 else None)"
| "indexOf (c # cs) p =
     (if prefix p (c # cs) then Some 0 else map_option Suc (indexOf cs p))"

text \<open>
  The replacement text of \<open>String.prototype.replace\<close> for a string pattern: in the
  replacement \<open>$$\<close> stands for a dollar sign, \<open>$&\<close> for the matched text, \<open>$`\<close> for the
  text before the match and \<open>$'\<close> for the text after it. A string pattern has no
  capture groups, so every other use of \<open>$\<close> stays as written.
\<close>

fun getSubstitution :: "string \<Rightarrow> string \<Rightarrow> string \<Rightarrow> string \<Rightarrow> string" where
  "getSubstitution matched preceding following [] = []"
| "getSubstitution matched preceding following [c] = [c]"
| "getSubstitution matched preceding following (c # d # r) =
     (if c = CHR ''$'' then
        (if d = CHR ''$'' then CHR ''$'' # getSubstitution matched preceding following r
         else if d = CHR ''&'' then matched @ getSubstitution matched preceding following r
         else if d = CHR 0x60 then preceding @ getSubstitution matched preceding following r
         else if d = CHR 0x27 then following @ getSubstitution matched preceding following r
         else c # getSubstitution matched preceding following (d # r))
      else c # getSubstitution matched preceding following (d # r))"

text \<open>\<open>s.replace(pattern, replacement)\<close> with a string pattern: the first occurrence only.\<close>

definition replace :: "string \<Rightarrow> string \<Rightarrow> string \<Rightarrow> string" where
  "replace s pattern replacement =
     (case indexOf s pattern of
        None \<Rightarrow> s
      | Some i \<Rightarrow>
          let preceding = take i s; following = drop (i + length pattern) s
          in preceding @ getSubstitution pattern preceding following replacement @ following)"

text \<open>
  The file system as far as \<open>edit_file\<close> sees it: a resolved path names a file with its
  content, a directory, or nothing. \<open>path_resolve\<close> is Node's \<open>path.resolve\<close>.
\<close>

datatype node = File string | Directory

type_synonym filesystem = "string \<Rightarrow> node option"

definition resolvePath :: "(string \<Rightarrow> string \<Rightarrow> string) \<Rightarrow> string \<Rightarrow> string \<Rightarrow> string" where
  "resolvePath path_resolve workingDir p =
     (if p = [] then workingDir else path_resolve workingDir p)"

text \<open>
  \<open>editFileTool\<close>. The result is \<open>Inr\<close> the returned text or \<open>Inl\<close> the message of a
  thrown error (\<open>readFileSync\<close> on a directory), with the file system afterwards.
\<close>

definition editFileTool ::
  "(string \<Rightarrow> string \<Rightarrow> string) \<Rightarrow> string \<Rightarrow> filesystem \<Rightarrow> string \<Rightarrow> string \<Rightarrow> string \<Rightarrow>
   (string + string) \<times> filesystem"
where
  "editFileTool path_resolve workingDir fs filePath oldString newString =
     (let resolved = resolvePath path_resolve workingDir filePath in
      case fs resolved of
        None \<Rightarrow> (Inr (''ERROR: File not found: '' @ resolved), fs)
      | Some Directory \<Rightarrow> (Inl ''EISDIR: illegal operation on a directory, read'', fs)
      | Some (File fileContent) \<Rightarrow>
          let count = int (length (split fileContent oldString)) - 1 in
          if count = 0 then
            (Inr (''ERROR: old_string not found in '' @ resolved @
                  ''. Make sure it matches exactly (including whitespace/indentation).''), fs)
          else if count > 1 then
            (Inr (''ERROR: old_string found '' @ show_int count @ '' times in '' @ resolved @
                  ''. It must be unique. Include more surrounding context to narrow it down.''), fs)
          else
            let newContent = replace fileContent oldString newString;
                oldLines = length (split oldString NL);
                newLines = length (split newString NL)
            in (Inr (''Edited '' @ resolved @ '': replaced '' @ show_nat oldLines @
                     '' line(s) with '' @ show_nat newLines @ '' line(s).''),
                fs(resolved \<mapsto> File newContent)))"


subsection \<open>\<open>executeTool\<close>\<close>

text \<open>
  The implementations \<open>executeTool\<close> dispatches to, over a state \<open>'w\<close> of browser, disk
  and clock: each returns \<open>Inr\<close> its text or \<open>Inl\<close> the message of the error it
  throws. \<open>string_to_number\<close> is the conversion of a string to a number (\<open>None\<close> is
  \<open>NaN\<close>), \<open>iso_stamp\<close> is \<open>new Date().toISOString().replace(/[:.]/g, "-")\<close>.
\<close>

record 'w tool_impls =
  impl_listTabs :: "'w \<Rightarrow> (string + TabInfo list) \<times> 'w"
  impl_attach :: "jsval option \<Rightarrow> 'w \<Rightarrow> (string + string) \<times> 'w"
  impl_navigate :: "jsval option \<Rightarrow> 'w \<Rightarrow> (string + string) \<times> 'w"
  impl_getPageText :: "'w \<Rightarrow> (string + string) \<times> 'w"
  impl_screenshot :: "string \<Rightarrow> 'w \<Rightarrow> (string + string) \<times> 'w"
  impl_click :: "jsval option \<Rightarrow> 'w \<Rightarrow> (string + string) \<times> 'w"
  impl_type :: "jsval option \<Rightarrow> jsval option \<Rightarrow> 'w \<Rightarrow> (string + string) \<times> 'w"
  impl_scroll :: "jsval option \<Rightarrow> jsval option \<Rightarrow> 'w \<Rightarrow> (string + string) \<times> 'w"
  impl_pressKey :: "jsval option \<Rightarrow> 'w \<Rightarrow> (string + string) \<times> 'w"
  impl_wait :: "int option \<Rightarrow> 'w \<Rightarrow> (string + string) \<times> 'w"
  impl_readFile :: "jsval option \<Rightarrow> jsval option \<Rightarrow> jsval option \<Rightarrow> 'w \<Rightarrow> (string + string) \<times> 'w"
  impl_writeFile :: "jsval option \<Rightarrow> jsval option \<Rightarrow> 'w \<Rightarrow> (string + string) \<times> 'w"
  impl_editFile :: "jsval option \<Rightarrow> jsval option \<Rightarrow> jsval option \<Rightarrow> 'w \<Rightarrow> (string + string) \<times> 'w"
  impl_listFiles :: "jsval option \<Rightarrow> jsval option \<Rightarrow> 'w \<Rightarrow> (string + string) \<times> 'w"
  impl_searchFiles :: "jsval option \<Rightarrow> jsval option \<Rightarrow> jsval option \<Rightarrow> 'w \<Rightarrow> (string + string) \<times> 'w"
  impl_runCommand :: "jsval option \<Rightarrow> jsval option \<Rightarrow> 'w \<Rightarrow> (string + string) \<times> 'w"
  impl_path_resolve :: "string \<Rightarrow> string \<Rightarrow> string"
  string_to_number :: "string \<Rightarrow> int option"
  iso_stamp :: "'w \<Rightarrow> string"

text \<open>\<open>Math.min(args.ms, 30000)\<close>\<close>

definition min_ms :: "'w tool_impls \<Rightarrow> jsval option \<Rightarrow> int option" where
  "min_ms impls v =
     map_option (\<lambda>n. min n 30000)
       (case v of
          None \<Rightarrow> None
        | Some (JNumber n) \<Rightarrow> Some n
        | Some (JBoolean b) \<Rightarrow> Some (if b then 1 else 0)
        | Some (JString s) \<Rightarrow> string_to_number impls s)"

definition render_tabs :: "TabInfo list \<Rightarrow> string" where
  "render_tabs tabs =
     (if tabs = [] then ''No tabs found.''
      else join (NL @ NL)
             (map (\<lambda>(i, t). ''['' @ show_nat i @ ''] '' @ title t @ NL @ ''    '' @ url t)
                (enumerate 0 tabs)))"

definition tool_names :: "string list" where
  "tool_names =
     [''chrome_list_tabs'', ''chrome_attach'', ''chrome_navigate'', ''chrome_get_page_text'',
      ''chrome_screenshot'', ''chrome_click'', ''chrome_type'', ''chrome_scroll'',
      ''chrome_press_key'', ''chrome_wait'', ''read_file'', ''write_file'', ''edit_file'',
      ''list_files'', ''search_files'', ''run_command'']"

text \<open>The body of the \<open>try\<close> block: the \<open>switch\<close> on the tool name.\<close>

definition dispatch ::
  "'w tool_impls \<Rightarrow> string \<Rightarrow> args \<Rightarrow> 'w \<Rightarrow> (string + string) \<times> 'w"
where
  "dispatch impls functionName a w =
     (if functionName = ''chrome_list_tabs'' then
        (case impl_listTabs impls w of
           (Inl err, w') \<Rightarrow> (Inl err, w')
         | (Inr tabs, w') \<Rightarrow> (Inr (render_tabs tabs), w'))
      else if functionName = ''chrome_attach'' then impl_attach impls (arg a ''tabIndex'') w
      else if functionName = ''chrome_navigate'' then impl_navigate impls (arg a ''url'') w
      else if functionName = ''chrome_get_page_text'' then impl_getPageText impls w
      else if functionName = ''chrome_screenshot'' then
        (case (if truthy (arg a ''filename'') then arg a ''filename''
               else Some (JString (''screenshot-'' @ iso_stamp impls w @ ''.png''))) of
           Some (JString filename) \<Rightarrow>
             impl_screenshot impls (impl_path_resolve impls ''./screenshots'' filename) w
         | _ \<Rightarrow> (Inl (''The '' @ [CHR 0x22] @ ''paths[1]'' @ [CHR 0x22] @
                   '' argument must be of type string.''), w))
      else if functionName = ''chrome_click'' then impl_click impls (arg a ''target'') w
      else if functionName = ''chrome_type'' then
        impl_type impls (arg a ''target'') (arg a ''text'') w
      else if functionName = ''chrome_scroll'' then
        impl_scroll impls (arg a ''direction'') (arg a ''amount'') w
      else if functionName = ''chrome_press_key'' then impl_pressKey impls (arg a ''key'') w
      else if functionName = ''chrome_wait'' then impl_wait impls (min_ms impls (arg a ''ms'')) w
      else if functionName = ''read_file'' then
        impl_readFile impls (arg a ''path'') (arg a ''offset'') (arg a ''limit'') w
      else if functionName = ''write_file'' then
        impl_writeFile impls (arg a ''path'') (arg a ''content'') w
      else if functionName = ''edit_file'' then
        impl_editFile impls (arg a ''path'') (arg a ''old_string'') (arg a ''new_string'') w
      else if functionName = ''list_files'' then
        impl_listFiles impls (arg a ''path'') (arg a ''recursive'') w
      else if functionName = ''search_files'' then
        impl_searchFiles impls (arg a ''pattern'') (arg a ''path'') (arg a ''file_pattern'') w
      else if functionName = ''run_command'' then
        impl_runCommand impls (arg a ''command'') (arg a ''cwd'') w
      else (Inr (''Unknown tool: '' @ functionName), w))"

text \<open>
  \<open>executeTool\<close>: the \<open>try\<close> block and its \<open>catch\<close>. \<open>Inl\<close> would be a rejected promise,
  \<open>Inr\<close> is the text it resolves to.
\<close>

definition executeTool ::
  "'w tool_impls \<Rightarrow> string \<Rightarrow> args \<Rightarrow> 'w \<Rightarrow> (string + string) \<times> 'w"
where
  "executeTool impls functionName a w =
     (case dispatch impls functionName a w of
        (Inr text, w') \<Rightarrow> (Inr text, w')
      | (Inl message, w') \<Rightarrow>
          (Inr (''Tool error ('' @ functionName @ ''): '' @ message), w'))"


section \<open>Agent orchestrator (\<open>CLI.processResponse\<close> in \<open>cli.ts\<close>)\<close>

record FunctionCall =
  name :: string
  args :: args

datatype GeminiResponse = Text string | FunctionCalls "FunctionCall list" "string option"

text \<open>One element of \<open>functionResults\<close>: the tool's name and the text it returned.\<close>

type_synonym FunctionResult = "string \<times> string"

text \<open>What the orchestrator does to the outside, in the order it does it.\<close>

datatype event =
    ExecuteTool FunctionCall
  | SendFunctionResults "FunctionResult list"
  | StartChat
  | SendMessage string
  | Sleep nat
  | MemorySave string string string

text \<open>
  The surroundings of a turn. Every \<open>await\<close> of the orchestrator is numbered (the
  \<open>tick\<close> of the state); \<open>tool_result\<close> is the text \<open>executeTool\<close> resolves to at
  that await, \<open>model_reply\<close> what the model API returns or the message of the error it
  throws, and \<open>signals\<close> how many times Ctrl+C is handled while the await is pending.
  A Ctrl+C within two seconds of the previous one exits the process and so ends the
  run: \<open>signals\<close> counts the others. \<open>memory_context\<close> is \<open>Memory.formatForContext()\<close>,
  \<open>json_call\<close> and \<open>json_string\<close> are \<open>JSON.stringify\<close> on a call and on a string.
  Console output is not part of the model.
\<close>

record world =
  tool_result :: "nat \<Rightarrow> FunctionCall \<Rightarrow> string"
  model_reply :: "nat \<Rightarrow> string + GeminiResponse"
  signals :: "nat \<Rightarrow> nat"
  now :: "nat \<Rightarrow> string"
  cwd :: string
  memory_context :: "nat \<Rightarrow> string"
  json_call :: "FunctionCall \<Rightarrow> string"
  json_string :: "string \<Rightarrow> string"

text \<open>The fields of \<open>CLI\<close> that a turn reads or writes, the session log and the trace.\<close>

record CLI =
  interrupted :: bool
  processing :: bool
  toolCallCount :: nat
  lastUserMessage :: string
  completedActions :: "string list"
  lastResponseHadText :: bool
  entries :: "LogEntry list"
  events :: "event list"
  tick :: nat

definition COMPACT_THRESHOLD :: nat where
  "COMPACT_THRESHOLD = 12"

definition EM_DASH :: string where
  "EM_DASH = [CHR 0xE2, CHR 0x80, CHR 0x94]"

definition DQ :: string where
  "DQ = [CHR 0x22]"

text \<open>\<open>this.session.append({role, content, metadata})\<close>\<close>

definition append_entry ::
  "world \<Rightarrow> role \<Rightarrow> string \<Rightarrow> (string \<times> string) list option \<Rightarrow> CLI \<Rightarrow> CLI"
where
  "append_entry env r c m st =
     st\<lparr>entries := entries st @
            [\<lparr>timestamp = now env (tick st), role = r, content = c, metadata = m\<rparr>]\<rparr>"

text \<open>
  The \<open>SIGINT\<close> handler for a Ctrl+C that is not a double one: during processing it sets
  the flag once; otherwise it calls \<open>prompt()\<close>, which clears both flags.
\<close>

definition sigint_handler :: "world \<Rightarrow> CLI \<Rightarrow> CLI" where
  "sigint_handler env st =
     (if processing st \<and> \<not> interrupted st then
        append_entry env System ''User interrupted the current task.'' None
          (st\<lparr>interrupted := True\<rparr>)
      else st\<lparr>processing := False, interrupted := False\<rparr>)"

fun deliver :: "nat \<Rightarrow> world \<Rightarrow> CLI \<Rightarrow> CLI" where
  "deliver 0 env st = st"
| "deliver (Suc n) env st = deliver n env (sigint_handler env st)"

text \<open>One \<open>await\<close>: the signals that arrive while it is pending are handled, the tick advances.\<close>

definition await :: "world \<Rightarrow> CLI \<Rightarrow> CLI" where
  "await env st = deliver (signals env (tick st)) env (st\<lparr>tick := Suc (tick st)\<rparr>)"

definition log_event :: "event \<Rightarrow> CLI \<Rightarrow> CLI" where
  "log_event e st = st\<lparr>events := events st @ [e]\<rparr>"

definition execute :: "world \<Rightarrow> FunctionCall \<Rightarrow> CLI \<Rightarrow> string \<times> CLI" where
  "execute env call st =
     (tool_result env (tick st) call, await env (log_event (ExecuteTool call) st))"

definition sendFunctionResults ::
  "world \<Rightarrow> FunctionResult list \<Rightarrow> CLI \<Rightarrow> (string + GeminiResponse) \<times> CLI"
where
  "sendFunctionResults env results st =
     (model_reply env (tick st), await env (log_event (SendFunctionResults results) st))"

definition sendMessage :: "world \<Rightarrow> string \<Rightarrow> CLI \<Rightarrow> (string + GeminiResponse) \<times> CLI" where
  "sendMessage env message st =
     (model_reply env (tick st), await env (log_event (SendMessage message) st))"

definition sleep :: "world \<Rightarrow> nat \<Rightarrow> CLI \<Rightarrow> CLI" where
  "sleep env ms st = await env (log_event (Sleep ms) st)"

text \<open>
  The bookkeeping of \<open>completedActions\<close> after a call. \<open>(call.args.text || "").slice(0, 60)\<close>
  throws a \<open>TypeError\<close> when \<open>text\<close> is a number or \<open>true\<close>.
\<close>

definition track_action :: "FunctionCall \<Rightarrow> string \<Rightarrow> CLI \<Rightarrow> string + CLI" where
  "track_action call result st =
     (if name call = ''chrome_navigate'' \<and> truthy (arg (args call) ''url'') then
        Inr (st\<lparr>completedActions := completedActions st @
                   [''Navigated to: '' @ to_str (arg (args call) ''url'')]\<rparr>)
      else if name call = ''chrome_type'' \<and> startsWith result ''Typed'' then
        (case (if truthy (arg (args call) ''text'') then arg (args call) ''text''
               else Some (JString [])) of
           Some (JString snippet) \<Rightarrow>
             Inr (st\<lparr>completedActions := completedActions st @
                        [''Typed comment: '' @ DQ @ take 60 snippet @ ''...'' @ DQ]\<rparr>)
         | _ \<Rightarrow> Inl ''(call.args.text || ...).slice is not a function'')
      else if name call = ''chrome_click'' \<and> startsWith result ''Clicked'' then
        Inr (st\<lparr>completedActions := completedActions st @
                   [''Clicked: '' @ to_str (arg (args call) ''target'')]\<rparr>)
      else Inr st)"

text \<open>
  The \<open>for\<close> loop over \<open>response.calls\<close>. It ends by the \<open>return\<close> of the interrupt
  check, by running through, or by an error thrown in the bookkeeping.
\<close>

datatype loop_end = Skipped | Completed | Raised string

fun run_calls ::
  "world \<Rightarrow> FunctionCall list \<Rightarrow> FunctionResult list \<Rightarrow> CLI \<Rightarrow>
   loop_end \<times> FunctionResult list \<times> CLI"
where
  "run_calls env [] functionResults st = (Completed, functionResults, st)"
| "run_calls env (call # rest) functionResults st =
     (if interrupted st then (Skipped, functionResults, st)
      else
        (case execute env call (append_entry env ToolCall (json_call env call) None st) of
           (result, st2) \<Rightarrow>
             (case track_action call result
                     (append_entry env ToolResult result (Some [(''tool'', name call)]) st2) of
                Inl msg \<Rightarrow>
                  (Raised msg, functionResults @ [(name call, result)],
                   append_entry env ToolResult result (Some [(''tool'', name call)]) st2)
              | Inr st4 \<Rightarrow> run_calls env rest (functionResults @ [(name call, result)]) st4)))"

definition actionSummary :: "CLI \<Rightarrow> string" where
  "actionSummary st =
     (let recentActions = join (NL @ ''- '') (slice_from (- 20) (completedActions st)) in
      if recentActions = [] then []
      else NL @ NL @ ''Actions completed so far:'' @ NL @ ''- '' @ recentActions @ NL @ NL @
           ''DO NOT repeat actions on pages/posts you already visited. Move on to NEW posts.'')"

definition continuationMsg :: "world \<Rightarrow> CLI \<Rightarrow> FunctionResult \<Rightarrow> string" where
  "continuationMsg env st lastToolResult =
     ''[Working directory: '' @ cwd env @ '']'' @ NL @ NL @
     ''[CONTEXT COMPACTED '' @ EM_DASH @
     '' Previous conversation was reset to save tokens.]'' @ NL @ NL @
     ''Your original task: '' @ lastUserMessage st @ NL @ NL @
     ''The last tool you used was '' @ DQ @ fst lastToolResult @ DQ @ '' which returned: '' @
     take 500 (json_string env (snd lastToolResult)) @
     actionSummary st @
     memory_context env (tick st) @ NL @ NL @
     ''Continue working on the task. Read the current page state if needed and keep going.''"

text \<open>How a call of \<open>processResponse\<close> ends.\<close>

datatype status = Returned | Thrown string | OutOfFuel

text \<open>What \<open>processResponse\<close> does next, once the calls of the response are dealt with.\<close>

datatype request = Finish status | Results "FunctionResult list" | Continuation string

text \<open>
  From the second interrupt check to the point where the next request goes out: the
  counter, and on reaching the threshold the compaction (the pending results sent with
  errors ignored, a fresh chat, the continuation message, the log entry, the memory).
\<close>

definition after_calls ::
  "world \<Rightarrow> FunctionCall list \<Rightarrow> FunctionResult list \<Rightarrow> CLI \<Rightarrow> request \<times> CLI"
where
  "after_calls env calls functionResults st1 =
     (if interrupted st1 then (Finish Returned, st1)
      else
        let st2 = st1\<lparr>toolCallCount := toolCallCount st1 + length calls\<rparr> in
        if COMPACT_THRESHOLD \<le> toolCallCount st2 then
          (let st3 = st2\<lparr>toolCallCount := 0\<rparr>;
               st4 = snd (withRetry (sendFunctionResults env functionResults) (sleep env) 5 st3);
               st5 = log_event StartChat st4
           in case functionResults of
                [] \<Rightarrow> (Finish (Thrown ''lastToolResult is undefined''), st5)
              | _ # _ \<Rightarrow>
                  let message = continuationMsg env st5 (last functionResults);
                      st6 = append_entry env System
                              (''Context compacted after '' @ show_nat COMPACT_THRESHOLD @
                               '' tool calls.'') None st5;
                      actionList = join ''; '' (slice_from (- 20) (completedActions st6));
                      st7 = log_event
                              (MemorySave ''compaction'' (take 200 (lastUserMessage st6))
                                 (if actionList = [] then ''Context compacted (no tracked actions)''
                                  else actionList)) st6
                  in (Continuation message, st7))
        else (Results functionResults, st2))"

text \<open>The body of \<open>processResponse\<close> up to the next request.\<close>

definition batch :: "world \<Rightarrow> GeminiResponse \<Rightarrow> CLI \<Rightarrow> request \<times> CLI" where
  "batch env response st =
     (if interrupted st then (Finish Returned, st)
      else
        (case response of
           Text answer \<Rightarrow>
             (Finish Returned, append_entry env Model answer None (st\<lparr>lastResponseHadText := True\<rparr>))
         | FunctionCalls calls answer \<Rightarrow>
             (case run_calls env calls [] st of
                (Skipped, functionResults, st1) \<Rightarrow> (Finish Returned, st1)
              | (Raised msg, functionResults, st1) \<Rightarrow> (Finish (Thrown msg), st1)
              | (Completed, functionResults, st1) \<Rightarrow> after_calls env calls functionResults st1)))"

text \<open>The \<open>catch\<close> around the next request and the recursive call.\<close>

definition on_error :: "world \<Rightarrow> string \<Rightarrow> string \<Rightarrow> CLI \<Rightarrow> status \<times> CLI" where
  "on_error env label msg st =
     (if interrupted st then (Returned, st)
      else (Returned, append_entry env System (label @ msg) None st))"

text \<open>
  \<open>processResponse\<close>. The model may answer every request with more calls, so the
  recursion is bounded by a fuel that counts the nested calls; the state reached when
  it runs out is returned with \<open>OutOfFuel\<close>.
\<close>

fun processResponse :: "nat \<Rightarrow> world \<Rightarrow> GeminiResponse \<Rightarrow> CLI \<Rightarrow> status \<times> CLI" where
  "processResponse 0 env response st = (OutOfFuel, st)"
| "processResponse (Suc fuel) env response st =
     (case batch env response st of
        (Finish s, st1) \<Rightarrow> (s, st1)
      | (Results functionResults, st1) \<Rightarrow>
          (case withRetry (sendFunctionResults env functionResults) (sleep env) 5 st1 of
             (Inl msg, st2) \<Rightarrow> on_error env ''Tool result error: '' msg st2
           | (Inr nextResponse, st2) \<Rightarrow>
               (case processResponse fuel env nextResponse st2 of
                  (Thrown msg, st3) \<Rightarrow> on_error env ''Tool result error: '' msg st3
                | (Returned, st3) \<Rightarrow> (Returned, st3)
                | (OutOfFuel, st3) \<Rightarrow> (OutOfFuel, st3)))
      | (Continuation message, st1) \<Rightarrow>
          (case withRetry (sendMessage env message) (sleep env) 5 st1 of
             (Inl msg, st2) \<Rightarrow> on_error env ''Error after compact: '' msg st2
           | (Inr freshResponse, st2) \<Rightarrow>
               (case processResponse fuel env freshResponse st2 of
                  (Thrown msg, st3) \<Rightarrow> on_error env ''Error after compact: '' msg st3
                | (Returned, st3) \<Rightarrow> (Returned, st3)
                | (OutOfFuel, st3) \<Rightarrow> (OutOfFuel, st3))))"


section \<open>Example inputs\<close>

text \<open>A resumed session: a system note, a user turn with one tool call, and a new message.\<close>

definition example_log :: "LogEntry list" where
  "example_log =
     [\<lparr>timestamp = ''t0'', role = System, content = ''Session started.'', metadata = None\<rparr>,
      \<lparr>timestamp = ''t1'', role = User, content = ''open the inbox'', metadata = None\<rparr>,
      \<lparr>timestamp = ''t2'', role = ToolCall, content = ''chrome_navigate'', metadata = None\<rparr>,
      \<lparr>timestamp = ''t3'', role = ToolResult, content = ''Navigated to: https://mail.example'',
         metadata = Some [(''tool'', ''chrome_navigate'')]\<rparr>,
      \<lparr>timestamp = ''t4'', role = ToolResult, content = ''Inbox (3)'',
         metadata = Some [(''tool'', ''chrome_get_page_text'')]\<rparr>,
      \<lparr>timestamp = ''t5'', role = Model, content = ''You have 3 messages.'', metadata = None\<rparr>,
      \<lparr>timestamp = ''t6'', role = User, content = ''thanks'', metadata = None\<rparr>]"

text \<open>A turn that has made eleven tool calls, and a model that answers in text.\<close>

definition example_world :: world where
  "example_world =
     \<lparr>tool_result = (\<lambda>t call. ''Clicked: BUTTON''),
      model_reply = (\<lambda>t. Inr (Text ''All done.'')),
      signals = (\<lambda>t. 0),
      now = (\<lambda>t. ''2025-01-15T14:30:00.000Z''),
      cwd = ''/home/user/project'',
      memory_context = (\<lambda>t. []),
      json_call = (\<lambda>call. name call),
      json_string = (\<lambda>s. DQ @ s @ DQ)\<rparr>"

definition example_cli :: CLI where
  "example_cli =
     \<lparr>interrupted = False, processing = True, toolCallCount = 11,
      lastUserMessage = ''star the repo'', completedActions = [],
      lastResponseHadText = False, entries = [], events = [], tick = 0\<rparr>"

definition example_call :: "string \<Rightarrow> FunctionCall" where
  "example_call n = \<lparr>name = n, args = [(''target'', JString ''Star'')]\<rparr>"

text \<open>A batch of five calls, and a Ctrl+C that arrives while the second one runs.\<close>

definition five_calls :: "FunctionCall list" where
  "five_calls =
     map example_call
       [''chrome_get_page_text'', ''chrome_click'', ''chrome_wait'', ''chrome_get_page_text'',
        ''chrome_screenshot'']"

definition interrupting_world :: world where
  "interrupting_world = example_world\<lparr>signals := (\<lambda>t. if t = 1 then 1 else 0)\<rparr>"

text \<open>Tool implementations of which \<open>click\<close> throws, as a detached browser makes it.\<close>

definition example_impls :: "unit tool_impls" where
  "example_impls =
     \<lparr>impl_listTabs = (\<lambda>w. (Inr [], w)),
      impl_attach = (\<lambda>v w. (Inl ''No tabs found in Chrome.'', w)),
      impl_navigate = (\<lambda>v w. (Inr ''Navigated to: https://example.org'', w)),
      impl_getPageText = (\<lambda>w. (Inr ''=== Page: Example ==='', w)),
      impl_screenshot = (\<lambda>f w. (Inr (''Screenshot saved to: '' @ f), w)),
      impl_click = (\<lambda>v w.
        (Inl ''Not connected to any Chrome tab. Use chrome_list_tabs and chrome_attach first.'', w)),
      impl_type = (\<lambda>v t w. (Inr ''Typed'', w)),
      impl_scroll = (\<lambda>d n w. (Inr ''Scrolled down by 500px'', w)),
      impl_pressKey = (\<lambda>k w. (Inr ''Pressed key: Enter'', w)),
      impl_wait = (\<lambda>ms w. (Inr ''Waited'', w)),
      impl_readFile = (\<lambda>f off lim w. (Inr ''File: a (1 lines total)'', w)),
      impl_writeFile = (\<lambda>f c w. (Inr ''Written 1 lines to a'', w)),
      impl_editFile = (\<lambda>f old new w. (Inr ''ERROR: File not found: a'', w)),
      impl_listFiles = (\<lambda>d r w. (Inr ''Directory is empty: .'', w)),
      impl_searchFiles = (\<lambda>pat d f w. (Inr ''Search error: timeout'', w)),
      impl_runCommand = (\<lambda>cmd d w. (Inr ''(command completed with no output)'', w)),
      impl_path_resolve = (\<lambda>d f. d @ ''/'' @ f),
      string_to_number = (\<lambda>s. None),
      iso_stamp = (\<lambda>w. ''2025-01-15T14-30-00-000Z'')\<rparr>"

text \<open>An attached client whose connection has died, and three answers of the browser.\<close>

definition docs_tab :: TabInfo where
  "docs_tab = \<lparr>tab_id = ''B2'', title = ''Docs'', url = ''https://docs.example'',
                webSocketDebuggerUrl = None\<rparr>"

definition mail_tab :: TabInfo where
  "mail_tab = \<lparr>tab_id = ''A1'', title = ''Mail'', url = ''https://mail.example'',
                webSocketDebuggerUrl = None\<rparr>"

definition example_client :: ChromeClient where
  "example_client = \<lparr>client = Some ''B2'', currentTab = Some docs_tab\<rparr>"

definition browser_with :: "TabInfo list \<Rightarrow> browser" where
  "browser_with tabs =
     \<lparr>probe_alive = False, listTabs_result = Inr tabs, connect_error = (\<lambda>target. None)\<rparr>"

text \<open>
  A page with a \<open>main\<close> element and a link whose text contains the word, and a page
  whose only button shows an icon text and carries its name in \<open>aria-label\<close>.
\<close>

definition main_element :: element where
  "main_element = \<lparr>node_id = 1, tagName = ''MAIN'', textContent = ''Welcome'', ariaLabel = None,
                    valueAttr = None, offsetParent = True\<rparr>"

definition menu_link :: element where
  "menu_link = \<lparr>node_id = 2, tagName = ''A'', textContent = ''Main menu'', ariaLabel = None,
                 valueAttr = None, offsetParent = True\<rparr>"

definition main_page :: page where
  "main_page =
     \<lparr>querySelector = (\<lambda>sel. if sel = ''main'' then Matched (Some main_element) else SyntaxError),
      candidates = [menu_link],
      allElements = [main_element, menu_link]\<rparr>"

definition close_button :: element where
  "close_button = \<lparr>node_id = 7, tagName = ''BUTTON'', textContent = ''X'',
                    ariaLabel = Some ''Close dialog'', valueAttr = None, offsetParent = True\<rparr>"

definition icon_button :: element where
  "icon_button = \<lparr>node_id = 8, tagName = ''BUTTON'', textContent = [],
                   ariaLabel = Some ''Close dialog'', valueAttr = None, offsetParent = True\<rparr>"

definition dialog_page :: "element \<Rightarrow> page" where
  "dialog_page button =
     \<lparr>querySelector = (\<lambda>sel. Matched None), candidates = [button], allElements = [button]\<rparr>"


section \<open>Properties of the session log\<close>

lemma includes_iff: "str_includes s p \<longleftrightarrow> (\<exists>a b. s = a @ p @ b)"
proof (induction s)
  case Nil
  then show ?case by auto
next
  case (Cons c cs)
  show ?case
  proof
    assume "str_includes (c # cs) p"
    then consider "prefix p (c # cs)" | "str_includes cs p" by auto
    then show "\<exists>a b. c # cs = a @ p @ b"
    proof cases
      case 1
      then obtain b where "c # cs = p @ b" by (auto simp: prefix_def)
      then have "c # cs = [] @ p @ b" by simp
      then show ?thesis by blast
    next
      case 2
      with Cons.IH obtain a b where "cs = a @ p @ b" by blast
      then have "c # cs = (c # a) @ p @ b" by simp
      then show ?thesis by blast
    qed
  next
    assume "\<exists>a b. c # cs = a @ p @ b"
    then obtain a b where ab: "c # cs = a @ p @ b" by blast
    show "str_includes (c # cs) p"
    proof (cases a)
      case Nil
      with ab have "prefix p (c # cs)" by (simp add: prefix_def)
      then show ?thesis by simp
    next
      case (Cons a0 a')
      with ab have "cs = a' @ p @ b" by simp
      with Cons.IH have "str_includes cs p" by blast
      then show ?thesis by simp
    qed
  qed
qed

lemma str_includes_here: "str_includes (p @ b) p"
  by (simp add: includes_iff) (metis append_Nil)

lemma str_includes_later: "str_includes s p \<Longrightarrow> str_includes (a @ s) p"
  by (simp add: includes_iff) (metis append.assoc)

lemma str_includes_self: "str_includes s s"
  by (induction s) auto

lemma shift_leading_model_hd:
  "shift_leading_model h = [] \<or> chat_role (hd (shift_leading_model h)) = ChatUser"
  by (induction h) (auto intro: chat_role.exhaust)

lemma merge_loop_adj:
  "distinct_adj (map chat_role merged) \<Longrightarrow> distinct_adj (map chat_role (merge_loop merged h))"
proof (induction h arbitrary: merged)
  case Nil
  then show ?case by simp
next
  case (Cons entry rest)
  show ?case
  proof (cases "merged \<noteq> [] \<and> chat_role (last merged) = chat_role entry")
    case True
    let ?m = "butlast merged @ [(last merged)\<lparr>parts := parts (last merged) @ parts entry\<rparr>]"
    have "map chat_role ?m = map chat_role (butlast merged @ [last merged])"
      by simp
    also have "\<dots> = map chat_role merged" using True by simp
    finally have "distinct_adj (map chat_role ?m)" using Cons.prems by simp
    from Cons.IH[OF this] True show ?thesis by simp
  next
    case False
    have "distinct_adj (map chat_role (merged @ [entry]))"
      using False Cons.prems by (auto simp: distinct_adj_append_iff last_map)
    from Cons.IH[OF this] False show ?thesis by auto
  qed
qed

lemma merge_loop_hd:
  "merged \<noteq> [] \<Longrightarrow>
   merge_loop merged h \<noteq> [] \<and> chat_role (hd (merge_loop merged h)) = chat_role (hd merged)"
proof (induction h arbitrary: merged)
  case Nil
  then show ?case by simp
next
  case (Cons entry rest)
  show ?case
  proof (cases "chat_role (last merged) = chat_role entry")
    case True
    let ?m = "butlast merged @ [(last merged)\<lparr>parts := parts (last merged) @ parts entry\<rparr>]"
    have ne: "?m \<noteq> []" by simp
    have "chat_role (hd ?m) = chat_role (hd merged)"
      using Cons.prems by (cases merged) (auto simp: hd_append)
    with Cons.IH[OF ne] True Cons.prems show ?thesis by simp
  next
    case False
    have ne: "merged @ [entry] \<noteq> []" by simp
    have "hd (merged @ [entry]) = hd merged" using Cons.prems by simp
    with Cons.IH[OF ne] False show ?thesis by simp
  qed
qed

lemma merge_loop_from_empty:
  "h = [] \<or> chat_role (hd h) = ChatUser \<Longrightarrow>
   merge_loop [] h = [] \<or> chat_role (hd (merge_loop [] h)) = ChatUser"
proof (cases h)
  case Nil
  then show ?thesis by simp
next
  case (Cons b bs)
  assume "h = [] \<or> chat_role (hd h) = ChatUser"
  with Cons have "chat_role b = ChatUser" by simp
  moreover have "merge_loop [] h = merge_loop [b] bs" using Cons by simp
  ultimately show ?thesis using merge_loop_hd[of "[b]" bs] by simp
qed

lemma pop_trailing_user_shape:
  "\<exists>k. pop_trailing_user merged = take k merged \<and>
       (pop_trailing_user merged = [] \<or>
        chat_role (last (pop_trailing_user merged)) = ChatModel)"
proof (induction merged rule: pop_trailing_user.induct)
  case (1 merged)
  show ?case
  proof (cases "merged \<noteq> [] \<and> chat_role (last merged) = ChatUser")
    case True
    then have eq: "pop_trailing_user merged = pop_trailing_user (butlast merged)"
      by (subst pop_trailing_user.simps) simp
    from 1[OF True] obtain k where
      k: "pop_trailing_user (butlast merged) = take k (butlast merged)"
      and l: "pop_trailing_user (butlast merged) = [] \<or>
              chat_role (last (pop_trailing_user (butlast merged))) = ChatModel"
      by blast
    have "take k (butlast merged) = take (min k (length merged - 1)) merged"
      by (simp add: butlast_conv_take min.commute)
    with k l eq show ?thesis by metis
  next
    case False
    then have eq: "pop_trailing_user merged = merged"
      by (subst pop_trailing_user.simps) auto
    have "merged = [] \<or> chat_role (last merged) = ChatModel"
      using False by (cases "chat_role (last merged)") auto
    with eq show ?thesis by (metis take_all order_refl)
  qed
qed

text \<open>No system entry contributes a block, the first entry of the log included.\<close>

lemma history_of_skips_system:
  "history_of log = history_of (filter (\<lambda>e. role e \<noteq> System) log)"
  by (induction log) auto

text \<open>
  Claim C1. Whatever the log and the configured number of turns, the history that
  \<open>toGeminiHistory\<close> returns is empty, or its first block has the user role and its
  last block the model role; and no two neighbouring blocks have the same role. (The
  blocks come from \<open>history_of\<close>: tool calls under the model role, tool results under
  the user role, system entries left out.)
\<close>

theorem toGeminiHistory_alternates:
  "(toGeminiHistory contextTurns log = [] \<or>
      chat_role (hd (toGeminiHistory contextTurns log)) = ChatUser \<and>
      chat_role (last (toGeminiHistory contextTurns log)) = ChatModel) \<and>
   distinct_adj (map chat_role (toGeminiHistory contextTurns log))"
proof -
  define h where "h = shift_leading_model (history_of (recentEntries contextTurns log))"
  define m where "m = merge_loop [] h"
  have res: "toGeminiHistory contextTurns log = pop_trailing_user m"
    by (simp add: toGeminiHistory_def m_def h_def)
  have h: "h = [] \<or> chat_role (hd h) = ChatUser"
    unfolding h_def by (rule shift_leading_model_hd)
  have m_hd: "m = [] \<or> chat_role (hd m) = ChatUser"
    unfolding m_def using h by (rule merge_loop_from_empty)
  have m_adj: "distinct_adj (map chat_role m)"
    unfolding m_def by (rule merge_loop_adj) simp
  obtain k where k: "pop_trailing_user m = take k m"
    and l: "pop_trailing_user m = [] \<or> chat_role (last (pop_trailing_user m)) = ChatModel"
    using pop_trailing_user_shape by blast
  have adj: "distinct_adj (map chat_role (take k m))"
  proof -
    have "map chat_role m = map chat_role (take k m) @ map chat_role (drop k m)"
      by (metis append_take_drop_id map_append)
    with m_adj show ?thesis by (metis distinct_adj_appendD1)
  qed
  have hd: "take k m = [] \<or> chat_role (hd (take k m)) = ChatUser"
    using m_hd by (cases m; cases k) auto
  from l have l': "take k m = [] \<or> chat_role (last (take k m)) = ChatModel"
    unfolding k .
  show ?thesis unfolding res k using l' adj hd by blast
qed

theorem toGeminiHistory_alternates_witness:
  "chat_role (hd (toGeminiHistory 50 example_log)) = ChatUser \<and>
   chat_role (last (toGeminiHistory 50 example_log)) = ChatModel \<and>
   distinct_adj (map chat_role (toGeminiHistory 50 example_log))"
proof -
  have "toGeminiHistory 50 example_log \<noteq> []" by code_simp
  with toGeminiHistory_alternates[of 50 example_log] show ?thesis by blast
qed

text \<open>
  With at least one turn configured, \<open>recentEntries\<close> is the whole log when it has at
  most \<open>contextTurns * 2\<close> entries, and otherwise the first entry if it is a system
  entry, followed by the last \<open>contextTurns * 2\<close> entries.
\<close>

lemma recentEntries_positive:
  assumes "0 < contextTurns"
  shows "recentEntries contextTurns log =
           (if length log \<le> nat (contextTurns * 2) then log
            else (case log of [] \<Rightarrow> [] | e # _ \<Rightarrow> if role e = System then [e] else []) @
                 drop (length log - nat (contextTurns * 2)) log)"
proof -
  have "nat (max (int (length log) - contextTurns * 2) 0) = length log - nat (contextTurns * 2)"
    using assms by linarith
  then show ?thesis
    using assms by (auto simp: recentEntries_def slice_from_def Let_def)
qed

text \<open>
  Claim C9, at \<open>CONTEXT_TURNS=0\<close>. The log of two entries is longer than
  \<open>contextTurns * 2 = 0\<close>, so by the claim the result is the system entry followed by
  the last zero entries. The code computes \<open>entries.slice(-0)\<close>, the whole log, and
  returns three entries: the system entry twice and the user entry.
\<close>

theorem recentEntries_zero_turns:
  "recentEntries 0
     [\<lparr>timestamp = ''t0'', role = System, content = ''Session started.'', metadata = None\<rparr>,
      \<lparr>timestamp = ''t1'', role = User, content = ''hello'', metadata = None\<rparr>] =
     [\<lparr>timestamp = ''t0'', role = System, content = ''Session started.'', metadata = None\<rparr>,
      \<lparr>timestamp = ''t0'', role = System, content = ''Session started.'', metadata = None\<rparr>,
      \<lparr>timestamp = ''t1'', role = User, content = ''hello'', metadata = None\<rparr>]"
  by (simp add: recentEntries_def slice_from_def)


section \<open>Properties of the retry loop\<close>

text \<open>
  Claim C4, at the error message of the claim. The message is a rate-limit error and
  carries the delay \<open>7.5s\<close>. Capture group 1 of the pattern holds the digits before
  the dot only, so the number handed to \<open>Math.ceil\<close> is 7 and the wait is 9 seconds,
  not \<open>ceil(7.5) + 2 = 10\<close>: a call that fails once with this message sleeps 9000 ms
  before the second attempt.
\<close>

theorem waitSec_fraction_dropped:
  "isRateLimit ''429 Too Many Requests: retry in 7.5s'' \<and>
   retryMatch ''429 Too Many Requests: retry in 7.5s'' = Some ''7'' \<and>
   waitSec ''429 Too Many Requests: retry in 7.5s'' 0 = 9 \<and>
   withRetry
     (\<lambda>(n, slept). (if n = (0::nat) then Inl ''429 Too Many Requests: retry in 7.5s'' else Inr n,
                    (Suc n, slept)))
     (\<lambda>ms (n, slept). (n, slept @ [ms])) 5 (0, []) = (Inr 1, (2, [9000]))"
  by code_simp

text \<open>A delay written without a fraction is waited for as the claim says.\<close>

lemma waitSec_whole_seconds:
  "waitSec ''429 Too Many Requests: retry in 7s'' 0 = 9 \<and>
   waitSec ''Resource exhausted'' 2 = 30"
  by code_simp


section \<open>Properties of the tool router\<close>

lemma dispatch_unknown:
  "functionName \<notin> set tool_names \<Longrightarrow>
   dispatch impls functionName a w = (Inr (''Unknown tool: '' @ functionName), w)"
  unfolding dispatch_def tool_names_def by simp

text \<open>For a known name the body of the \<open>try\<close> is the call of the implementation.\<close>

lemma dispatch_known:
  "dispatch impls ''chrome_attach'' a w = impl_attach impls (arg a ''tabIndex'') w"
  "dispatch impls ''chrome_navigate'' a w = impl_navigate impls (arg a ''url'') w"
  "dispatch impls ''chrome_get_page_text'' a w = impl_getPageText impls w"
  "dispatch impls ''chrome_click'' a w = impl_click impls (arg a ''target'') w"
  "dispatch impls ''chrome_type'' a w = impl_type impls (arg a ''target'') (arg a ''text'') w"
  "dispatch impls ''chrome_press_key'' a w = impl_pressKey impls (arg a ''key'') w"
  "dispatch impls ''edit_file'' a w =
     impl_editFile impls (arg a ''path'') (arg a ''old_string'') (arg a ''new_string'') w"
  "dispatch impls ''run_command'' a w = impl_runCommand impls (arg a ''command'') (arg a ''cwd'') w"
  by (simp_all add: dispatch_def)

text \<open>
  Claim C5. For every tool name, argument record and behaviour of the implementations,
  \<open>executeTool\<close> resolves to a text. When the implementation it dispatches to throws
  an error with message \<open>msg\<close>, the text is \<open>Tool error (<name>): <msg>\<close>; a name
  that is none of the sixteen tools gives \<open>Unknown tool: <name>\<close>.
\<close>

theorem executeTool_never_rejects:
  "(\<exists>result w'. executeTool impls functionName a w = (Inr result, w')) \<and>
   (\<forall>msg w'. dispatch impls functionName a w = (Inl msg, w') \<longrightarrow>
      executeTool impls functionName a w =
        (Inr (''Tool error ('' @ functionName @ ''): '' @ msg), w')) \<and>
   (functionName \<notin> set tool_names \<longrightarrow>
      executeTool impls functionName a w = (Inr (''Unknown tool: '' @ functionName), w))"
proof (intro conjI allI impI)
  obtain r w' where d: "dispatch impls functionName a w = (r, w')"
    by (cases "dispatch impls functionName a w")
  show "\<exists>result w'. executeTool impls functionName a w = (Inr result, w')"
    by (cases r) (simp_all add: executeTool_def d)
next
  fix msg w' assume "dispatch impls functionName a w = (Inl msg, w')"
  then show "executeTool impls functionName a w =
      (Inr (''Tool error ('' @ functionName @ ''): '' @ msg), w')"
    by (simp add: executeTool_def)
next
  assume "functionName \<notin> set tool_names"
  then have "dispatch impls functionName a w = (Inr (''Unknown tool: '' @ functionName), w)"
    by (rule dispatch_unknown)
  then show "executeTool impls functionName a w = (Inr (''Unknown tool: '' @ functionName), w)"
    by (simp add: executeTool_def)
qed

theorem executeTool_never_rejects_witness:
  "executeTool example_impls ''chrome_click'' [(''target'', JString ''#submit'')] () =
     (Inr (''Tool error (chrome_click): '' @
           ''Not connected to any Chrome tab. Use chrome_list_tabs and chrome_attach first.''), ()) \<and>
   executeTool example_impls ''chrome_reload'' [] () = (Inr ''Unknown tool: chrome_reload'', ())"
proof -
  have thrown: "dispatch example_impls ''chrome_click'' [(''target'', JString ''#submit'')] () =
      (Inl ''Not connected to any Chrome tab. Use chrome_list_tabs and chrome_attach first.'', ())"
    by (simp add: dispatch_def example_impls_def)
  have unknown: "''chrome_reload'' \<notin> set tool_names"
    by (simp add: tool_names_def)
  from executeTool_never_rejects[of example_impls "''chrome_click''"
         "[(''target'', JString ''#submit'')]" "()"] thrown
  have 1: "executeTool example_impls ''chrome_click'' [(''target'', JString ''#submit'')] () =
     (Inr (''Tool error ('' @ ''chrome_click'' @ ''): '' @
           ''Not connected to any Chrome tab. Use chrome_list_tabs and chrome_attach first.''), ())"
    by blast
  from executeTool_never_rejects[of example_impls "''chrome_reload''" "[]" "()"] unknown
  have 2: "executeTool example_impls ''chrome_reload'' [] () =
     (Inr (''Unknown tool: '' @ ''chrome_reload''), ())"
    by blast
  from 1 2 show ?thesis by simp
qed

subsection \<open>\<open>edit_file\<close>\<close>

text \<open>
  The refusals: a missing file, and a count of occurrences other than one, give an
  \<open>ERROR:\<close> text and leave the file system as it was.
\<close>

lemma editFileTool_refuses:
  assumes "fs (resolvePath path_resolve wd p) = None \<or>
           (\<exists>c. fs (resolvePath path_resolve wd p) = Some (File c) \<and>
                (length (split c old) = 1 \<or> 2 < length (split c old)))"
  shows "snd (editFileTool path_resolve wd fs p old new) = fs \<and>
         (\<exists>t. fst (editFileTool path_resolve wd fs p old new) = Inr t \<and> startsWith t ''ERROR:'')"
  using assms by (auto simp: editFileTool_def Let_def startsWith_def)

text \<open>A replacement text without a dollar sign is inserted as it is.\<close>

lemma getSubstitution_plain:
  "CHR ''$'' \<notin> set r \<Longrightarrow> getSubstitution m a b r = r"
  by (induction m a b r rule: getSubstitution.induct) auto

lemma editFileTool_replaces_plain:
  assumes "fs (resolvePath path_resolve wd p) = Some (File c)"
    and "length (split c old) = 2"
    and "indexOf c old = Some i"
    and "CHR ''$'' \<notin> set new"
  shows "snd (editFileTool path_resolve wd fs p old new) (resolvePath path_resolve wd p) =
           Some (File (take i c @ new @ drop (i + length old) c))"
  using assms by (simp add: editFileTool_def Let_def replace_def getSubstitution_plain)

text \<open>
  The count is the number of pieces of \<open>split\<close> less one: occurrences that overlap
  are counted once, and an empty \<open>old_string\<close> counts the code units less one.
\<close>

lemma split_counts:
  "split ''aaa'' ''aa'' = [[], ''a'']"
  "split ''ab'' [] = [''a'', ''b'']"
  "split [] [] = []"
  by code_simp+

text \<open>
  Claim C10, at a replacement text with a dollar pattern. The file \<open>/w/a.sh\<close> holds
  \<open>echo PID\<close>, in which \<open>PID\<close> occurs once, and \<open>edit_file\<close> is asked to put \<open>$$\<close> in
  its place. The tool reports the edit, and the file then holds \<open>echo $\<close>, not
  \<open>echo $$\<close>: \<open>String.prototype.replace\<close> reads \<open>$$\<close> in its second argument as
  one dollar sign.
\<close>

theorem editFileTool_dollar_pattern:
  "length (split ''echo PID'' ''PID'') - 1 = 1 \<and>
   fst (editFileTool (\<lambda>wd p. wd @ ''/'' @ p) ''/w'' (Map.empty(''/w/a.sh'' \<mapsto> File ''echo PID''))
          ''a.sh'' ''PID'' ''$$'') =
     Inr ''Edited /w/a.sh: replaced 1 line(s) with 1 line(s).'' \<and>
   snd (editFileTool (\<lambda>wd p. wd @ ''/'' @ p) ''/w'' (Map.empty(''/w/a.sh'' \<mapsto> File ''echo PID''))
          ''a.sh'' ''PID'' ''$$'') ''/w/a.sh'' =
     Some (File ''echo $'')"
  by code_simp


section \<open>Properties of the browser session\<close>

text \<open>
  Claim C6, as amended. An attached client whose probe fails re-lists the tabs. If the
  list has a tab with the id of the attached tab and the connection to it opens, the
  client is attached to the first such tab; if no tab has that id, the list is not
  empty and the connection to its first tab opens, the client is attached to that first
  tab. With an empty list, and whenever the reconnection throws, client and tab are
  cleared and the error thrown is
  \<open>Lost connection to Chrome tab and could not reconnect: <reason>\<close>, the reason
  being \<open>Tab no longer exists\<close> for the empty list.
\<close>

theorem ensureConnected_reconnects:
  assumes "client st = Some c" and "currentTab st = Some cur" and "\<not> probe_alive b"
    and "listTabs_result b = Inr tabs"
  shows "(\<forall>tab. find (\<lambda>t. tab_id t = tab_id cur) tabs = Some tab \<and>
                connect_error b (tab_id tab) = None \<longrightarrow>
            tab_id tab = tab_id cur \<and>
            ensureConnected b st =
              (Inr (tab_id tab), st\<lparr>client := Some (tab_id tab), currentTab := Some tab\<rparr>)) \<and>
         (\<forall>t0 rest. find (\<lambda>t. tab_id t = tab_id cur) tabs = None \<and> tabs = t0 # rest \<and>
                    connect_error b (tab_id t0) = None \<longrightarrow>
            ensureConnected b st =
              (Inr (tab_id t0), st\<lparr>client := Some (tab_id t0), currentTab := Some t0\<rparr>)) \<and>
         (tabs = [] \<longrightarrow>
            ensureConnected b st =
              (Inl ''Lost connection to Chrome tab and could not reconnect: Tab no longer exists'',
               st\<lparr>client := None, currentTab := None\<rparr>)) \<and>
         (\<forall>msg. reconnect b (tab_id cur) = Inl msg \<longrightarrow>
            ensureConnected b st =
              (Inl (''Lost connection to Chrome tab and could not reconnect: '' @ msg),
               st\<lparr>client := None, currentTab := None\<rparr>))"
proof -
  have same: "tab_id tab = tab_id cur \<and>
            ensureConnected b st =
              (Inr (tab_id tab), st\<lparr>client := Some (tab_id tab), currentTab := Some tab\<rparr>)"
    if h: "find (\<lambda>t. tab_id t = tab_id cur) tabs = Some tab \<and> connect_error b (tab_id tab) = None"
    for tab
  proof -
    from h have "tab_id tab = tab_id cur" by (auto simp: find_Some_iff)
    moreover have "reconnect b (tab_id cur) = Inr tab"
      using h assms(4) by (simp add: reconnect_def)
    ultimately show ?thesis using assms by (simp add: ensureConnected_def)
  qed
  have first: "ensureConnected b st =
              (Inr (tab_id t0), st\<lparr>client := Some (tab_id t0), currentTab := Some t0\<rparr>)"
    if h: "find (\<lambda>t. tab_id t = tab_id cur) tabs = None \<and> tabs = t0 # rest \<and>
            connect_error b (tab_id t0) = None"
    for t0 rest
  proof -
    from h have f: "find (\<lambda>t. tab_id t = tab_id cur) tabs = None" and t: "tabs = t0 # rest"
      and c: "connect_error b (tab_id t0) = None" by auto
    have "reconnect b (tab_id cur) = Inr t0"
      unfolding reconnect_def assms(4) using c by (simp add: f) (simp add: t)
    then show ?thesis using assms by (simp add: ensureConnected_def)
  qed
  have none: "ensureConnected b st =
              (Inl ''Lost connection to Chrome tab and could not reconnect: Tab no longer exists'',
               st\<lparr>client := None, currentTab := None\<rparr>)"
    if "tabs = []"
  proof -
    have "reconnect b (tab_id cur) = Inl ''Tab no longer exists''"
      using that assms(4) by (simp add: reconnect_def)
    then show ?thesis using assms by (simp add: ensureConnected_def)
  qed
  have failed: "ensureConnected b st =
              (Inl (''Lost connection to Chrome tab and could not reconnect: '' @ msg),
               st\<lparr>client := None, currentTab := None\<rparr>)"
    if "reconnect b (tab_id cur) = Inl msg" for msg
    using that assms by (simp add: ensureConnected_def)
  show ?thesis using same first none failed by blast
qed

theorem ensureConnected_reconnects_witness:
  "ensureConnected (browser_with [mail_tab, docs_tab\<lparr>title := ''Docs - page 2''\<rparr>]) example_client =
     (Inr ''B2'',
      \<lparr>client = Some ''B2'', currentTab = Some (docs_tab\<lparr>title := ''Docs - page 2''\<rparr>)\<rparr>) \<and>
   ensureConnected (browser_with [mail_tab]) example_client =
     (Inr ''A1'', \<lparr>client = Some ''A1'', currentTab = Some mail_tab\<rparr>) \<and>
   ensureConnected (browser_with []) example_client =
     (Inl ''Lost connection to Chrome tab and could not reconnect: Tab no longer exists'',
      \<lparr>client = None, currentTab = None\<rparr>)"
proof -
  let ?moved = "docs_tab\<lparr>title := ''Docs - page 2''\<rparr>"
  have c: "client example_client = Some ''B2''" and t: "currentTab example_client = Some docs_tab"
    by (simp_all add: example_client_def)
  have p: "\<not> probe_alive (browser_with tabs)" for tabs by (simp add: browser_with_def)
  have l: "listTabs_result (browser_with tabs) = Inr tabs" for tabs by (simp add: browser_with_def)
  have f2: "find (\<lambda>t. tab_id t = tab_id docs_tab) [mail_tab, ?moved] = Some ?moved \<and>
            connect_error (browser_with [mail_tab, ?moved]) (tab_id ?moved) = None"
    by (simp add: mail_tab_def docs_tab_def browser_with_def)
  have f1: "find (\<lambda>t. tab_id t = tab_id docs_tab) [mail_tab] = None \<and> [mail_tab] = mail_tab # [] \<and>
            connect_error (browser_with [mail_tab]) (tab_id mail_tab) = None"
    by (simp add: mail_tab_def docs_tab_def browser_with_def)
  from ensureConnected_reconnects[OF c t p l, of "[mail_tab, ?moved]"] f2
  have 1: "ensureConnected (browser_with [mail_tab, ?moved]) example_client =
      (Inr (tab_id ?moved), example_client\<lparr>client := Some (tab_id ?moved), currentTab := Some ?moved\<rparr>)"
    by blast
  from ensureConnected_reconnects[OF c t p l, of "[mail_tab]"] f1
  have 2: "ensureConnected (browser_with [mail_tab]) example_client =
      (Inr (tab_id mail_tab), example_client\<lparr>client := Some (tab_id mail_tab), currentTab := Some mail_tab\<rparr>)"
    by blast
  from ensureConnected_reconnects[OF c t p l, of "[]"]
  have 3: "ensureConnected (browser_with []) example_client =
      (Inl ''Lost connection to Chrome tab and could not reconnect: Tab no longer exists'',
       example_client\<lparr>client := None, currentTab := None\<rparr>)"
    by blast
  from 1 2 3 show ?thesis
    by (simp add: example_client_def docs_tab_def mail_tab_def)
qed

text \<open>
  Claim C6 as stated fails in its last part: with an empty tab list the error that
  \<open>ensureConnected\<close> throws does not mention attaching. (The text that does,
  \<open>Use /tabs and /attach to reconnect\<close>, belongs to the branch for a client without a
  current tab.)
\<close>

theorem ensureConnected_error_text_counterexample:
  "fst (ensureConnected (browser_with []) example_client) =
     Inl ''Lost connection to Chrome tab and could not reconnect: Tab no longer exists'' \<and>
   \<not> str_includes ''Lost connection to Chrome tab and could not reconnect: Tab no longer exists''
       ''attach''"
  by code_simp

text \<open>
  Claim C7. When the descriptor is a selector that matches, \<open>querySelector\<close> returning
  its first match \<open>el\<close>, then \<open>el\<close> is the element the script scrolls to and clicks,
  whatever the interactive elements of the page and their texts are; and \<open>click\<close>, on a
  connection that \<open>ensureConnected\<close> grants, reports the click of \<open>el\<close>.
\<close>

theorem click_selector_wins:
  assumes "querySelector pg descriptor = Matched (Some el)"
  shows "click_target pg descriptor = Some el \<and>
         click_script pg descriptor =
           (''Clicked: '' @ tagName el @ '' '' @ [CHR 0x22] @ take 80 (trim (textContent el)) @
              [CHR 0x22],
            [ScrollIntoView (node_id el), Click (node_id el)]) \<and>
         (\<forall>c st'. ensureConnected b st = (Inr c, st') \<longrightarrow>
            click b pg st descriptor =
              (Inr (''Clicked: '' @ tagName el @ '' '' @ [CHR 0x22] @
                    take 80 (trim (textContent el)) @ [CHR 0x22]),
               st', [ScrollIntoView (node_id el), Click (node_id el)]))"
  using assms by (simp add: click_target_def click_script_def by_selector_def click_def)

theorem click_selector_wins_witness:
  "by_text main_page ''main'' = Some menu_link \<and>
   click_target main_page ''main'' = Some main_element \<and>
   snd (click_script main_page ''main'') = [ScrollIntoView 1, Click 1]"
proof -
  have q: "querySelector main_page ''main'' = Matched (Some main_element)"
    by (simp add: main_page_def)
  have t: "by_text main_page ''main'' = Some menu_link" by code_simp
  from click_selector_wins[OF q, of "browser_with []" example_client]
  have "click_target main_page ''main'' = Some main_element"
    and "snd (click_script main_page ''main'') =
           [ScrollIntoView (node_id main_element), Click (node_id main_element)]"
    by simp_all
  with t show ?thesis by (simp add: main_element_def)
qed

lemma candidate_label_cases:
  "candidate_label c =
     (if textContent c \<noteq> [] then textContent c
      else case ariaLabel c of
             Some a \<Rightarrow> if a \<noteq> [] then a else (case valueAttr c of Some v \<Rightarrow> v | None \<Rightarrow> [])
           | None \<Rightarrow> (case valueAttr c of Some v \<Rightarrow> v | None \<Rightarrow> []))"
  by (auto simp: candidate_label_def js_or_def split: option.splits)

text \<open>
  Claim C8, as amended. The label of an interactive element is the first non-empty one
  of its text content, its \<open>aria-label\<close> and its \<open>value\<close>. Whenever the page has an
  interactive element whose label, lowercased and trimmed, contains the lowercased and
  trimmed descriptor, the text-matching step finds an interactive element with that
  property (the first one in document order).
\<close>

theorem by_text_first_nonempty:
  assumes "c \<in> set (candidates pg)"
    and "(textContent c \<noteq> [] \<and> lbl = textContent c) \<or>
         (textContent c = [] \<and> ariaLabel c = Some lbl \<and> lbl \<noteq> []) \<or>
         (textContent c = [] \<and> (ariaLabel c = None \<or> ariaLabel c = Some []) \<and>
          valueAttr c = Some lbl)"
    and "str_includes (trim (toLowerCase lbl)) (trim (toLowerCase descriptor))"
  shows "\<exists>el. by_text pg descriptor = Some el \<and> el \<in> set (candidates pg) \<and>
              str_includes (trim (toLowerCase (candidate_label el)))
                (trim (toLowerCase descriptor))"
proof -
  let ?P = "\<lambda>c. let t = trim (toLowerCase (candidate_label c))
                in t = trim (toLowerCase descriptor) \<or>
                   str_includes t (trim (toLowerCase descriptor))"
  have lbl: "candidate_label c = lbl"
    using assms(2) by (auto simp: candidate_label_cases)
  have "?P c" using assms(3) lbl by (simp add: Let_def)
  with assms(1) have "\<exists>x\<in>set (candidates pg). ?P x" by blast
  then obtain el where f: "find ?P (candidates pg) = Some el"
    by (cases "find ?P (candidates pg)") (auto simp: find_None_iff)
  then have el: "el \<in> set (candidates pg)" "?P el"
    by (auto simp: find_Some_iff)
  from el(2) have "str_includes (trim (toLowerCase (candidate_label el)))
                     (trim (toLowerCase descriptor))"
    by (auto simp: Let_def str_includes_self)
  with f el(1) show ?thesis by (auto simp: by_text_def Let_def)
qed

theorem by_text_first_nonempty_witness:
  "by_text (dialog_page icon_button) ''Close'' = Some icon_button"
proof -
  have 1: "icon_button \<in> set (candidates (dialog_page icon_button))"
    by (simp add: dialog_page_def)
  have 2: "(textContent icon_button \<noteq> [] \<and> ''Close dialog'' = textContent icon_button) \<or>
         (textContent icon_button = [] \<and> ariaLabel icon_button = Some ''Close dialog'' \<and>
          ''Close dialog'' \<noteq> []) \<or>
         (textContent icon_button = [] \<and>
          (ariaLabel icon_button = None \<or> ariaLabel icon_button = Some []) \<and>
          valueAttr icon_button = Some ''Close dialog'')"
    by (simp add: icon_button_def)
  have 3: "str_includes (trim (toLowerCase ''Close dialog'')) (trim (toLowerCase ''Close''))"
    by code_simp
  from by_text_first_nonempty[OF 1 2 3] show ?thesis
    by (auto simp: dialog_page_def)
qed

text \<open>
  Claim C8 as stated fails: a button with the text \<open>X\<close> and the \<open>aria-label\<close>
  \<open>Close dialog\<close> is not found for the descriptor \<open>close\<close>, although its label
  contains the descriptor. Its text is not empty, so the label is never looked at.
\<close>

theorem by_text_aria_label_counterexample:
  "close_button \<in> set (candidates (dialog_page close_button)) \<and>
   textContent close_button = ''X'' \<and>
   ariaLabel close_button = Some ''Close dialog'' \<and>
   str_includes (trim (toLowerCase ''Close dialog'')) (toLowerCase ''close'') \<and>
   by_text (dialog_page close_button) ''close'' = None \<and>
   fst (click_script (dialog_page close_button) ''close'') =
     ''ERROR: Could not find element matching: close''"
  by code_simp


section \<open>Properties of the orchestrator\<close>

lemma append_entry_fields [simp]:
  "events (append_entry env r c m st) = events st"
  "interrupted (append_entry env r c m st) = interrupted st"
  "processing (append_entry env r c m st) = processing st"
  "lastUserMessage (append_entry env r c m st) = lastUserMessage st"
  "toolCallCount (append_entry env r c m st) = toolCallCount st"
  "completedActions (append_entry env r c m st) = completedActions st"
  "tick (append_entry env r c m st) = tick st"
  by (simp_all add: append_entry_def)

lemma sigint_handler_fields [simp]:
  "events (sigint_handler env st) = events st"
  "lastUserMessage (sigint_handler env st) = lastUserMessage st"
  "toolCallCount (sigint_handler env st) = toolCallCount st"
  "completedActions (sigint_handler env st) = completedActions st"
  "tick (sigint_handler env st) = tick st"
  by (simp_all add: sigint_handler_def)

lemma deliver_fields [simp]:
  "events (deliver n env st) = events st"
  "lastUserMessage (deliver n env st) = lastUserMessage st"
  "toolCallCount (deliver n env st) = toolCallCount st"
  "completedActions (deliver n env st) = completedActions st"
  "tick (deliver n env st) = tick st"
  by (induction n arbitrary: st; simp)+

lemma await_fields [simp]:
  "events (await env st) = events st"
  "lastUserMessage (await env st) = lastUserMessage st"
  "toolCallCount (await env st) = toolCallCount st"
  "completedActions (await env st) = completedActions st"
  "tick (await env st) = Suc (tick st)"
  by (simp_all add: await_def)

lemma log_event_fields [simp]:
  "events (log_event e st) = events st @ [e]"
  "interrupted (log_event e st) = interrupted st"
  "lastUserMessage (log_event e st) = lastUserMessage st"
  "toolCallCount (log_event e st) = toolCallCount st"
  "completedActions (log_event e st) = completedActions st"
  "tick (log_event e st) = tick st"
  by (simp_all add: log_event_def)

lemma track_action_fields:
  assumes "track_action call result st = Inr st'"
  shows "events st' = events st" "lastUserMessage st' = lastUserMessage st"
    "toolCallCount st' = toolCallCount st" "interrupted st' = interrupted st"
  using assms
  by (auto simp: track_action_def split: if_splits option.splits jsval.splits)

lemma run_calls_completed:
  assumes "run_calls env calls rs st = (Completed, rs', st')"
  shows "events st' = events st @ map ExecuteTool calls \<and>
         lastUserMessage st' = lastUserMessage st \<and>
         toolCallCount st' = toolCallCount st \<and>
         map fst rs' = map fst rs @ map name calls"
  using assms
proof (induction calls arbitrary: rs st)
  case Nil
  then show ?case by simp
next
  case (Cons call rest)
  from Cons.prems have ni: "\<not> interrupted st" by (auto split: if_splits)
  define st1 where "st1 = append_entry env ToolCall (json_call env call) None st"
  obtain result st2 where ex: "execute env call st1 = (result, st2)"
    by (cases "execute env call st1")
  define st3 where "st3 = append_entry env ToolResult result (Some [(''tool'', name call)]) st2"
  from Cons.prems ni ex obtain st4 where
    tr: "track_action call result st3 = Inr st4"
    and rec: "run_calls env rest (rs @ [(name call, result)]) st4 = (Completed, rs', st')"
    by (auto simp: st1_def st3_def split: sum.splits)
  have st2: "events st2 = events st @ [ExecuteTool call]"
    "lastUserMessage st2 = lastUserMessage st" "toolCallCount st2 = toolCallCount st"
    using ex by (auto simp: execute_def st1_def)
  have st4: "events st4 = events st @ [ExecuteTool call]"
    "lastUserMessage st4 = lastUserMessage st" "toolCallCount st4 = toolCallCount st"
    using track_action_fields[OF tr] st2 by (simp_all add: st3_def)
  from Cons.IH[OF rec] st4 show ?case by simp
qed

lemma run_calls_append:
  "run_calls env (xs @ ys) rs st =
     (case run_calls env xs rs st of
        (Completed, rs', st') \<Rightarrow> run_calls env ys rs' st'
      | (Skipped, rs', st') \<Rightarrow> (Skipped, rs', st')
      | (Raised msg, rs', st') \<Rightarrow> (Raised msg, rs', st'))"
proof (induction xs arbitrary: rs st)
  case Nil
  then show ?case by simp
next
  case (Cons call rest)
  show ?case
    by (simp add: Cons.IH split: prod.splits sum.splits)
qed


lemma continuationMsg_includes:
  "str_includes (continuationMsg env st r) (lastUserMessage st) \<and>
   str_includes (continuationMsg env st r) (fst r)"
  unfolding continuationMsg_def
  by (rule conjI; (rule str_includes_here | rule str_includes_later)+)

lemma on_error_events [simp]: "events (snd (on_error env label msg st)) = events st"
  by (simp add: on_error_def)

lemma withRetry_loop_events:
  assumes fn: "\<And>s. events (snd (fn s)) = events s @ [e]"
    and sl: "\<And>ms s. events (sl ms s) = events s @ [Sleep ms]"
  shows "\<exists>es. events (snd (withRetry_loop fn sl mx left st)) = events st @ e # es \<and>
              set es \<subseteq> insert e (range Sleep)"
proof (induction left arbitrary: st)
  case 0
  show ?case using fn[of st] by simp
next
  case (Suc left)
  obtain r s' where f: "fn st = (r, s')" by (cases "fn st")
  with fn[of st] have s': "events s' = events st @ [e]" by simp
  show ?case
  proof (cases r)
    case (Inr v)
    with f s' show ?thesis by simp
  next
    case (Inl msg)
    show ?thesis
    proof (cases "isRateLimit msg")
      case False
      with Inl f s' show ?thesis by simp
    next
      case True
      let ?ms = "waitSec msg (mx - Suc left) * 1000"
      from Suc.IH[of "sl ?ms s'"] obtain es where
        es: "events (snd (withRetry_loop fn sl mx left (sl ?ms s'))) = events (sl ?ms s') @ e # es"
        and sub: "set es \<subseteq> insert e (range Sleep)" by blast
      have "events (snd (withRetry_loop fn sl mx (Suc left) st)) =
              events st @ e # (Sleep ?ms # e # es)"
        using Inl True f es s' sl[of ?ms s'] by simp
      moreover have "set (Sleep ?ms # e # es) \<subseteq> insert e (range Sleep)"
        using sub by auto
      ultimately show ?thesis by blast
    qed
  qed
qed

lemma send_events [simp]:
  "events (snd (sendFunctionResults env rs s)) = events s @ [SendFunctionResults rs]"
  "events (snd (sendMessage env m s)) = events s @ [SendMessage m]"
  "events (sleep env ms s) = events s @ [Sleep ms]"
  by (simp_all add: sendFunctionResults_def sendMessage_def sleep_def)

lemma send_keeps [simp]:
  "lastUserMessage (snd (sendFunctionResults env rs s)) = lastUserMessage s"
  "lastUserMessage (sleep env ms s) = lastUserMessage s"
  by (simp_all add: sendFunctionResults_def sleep_def)

lemma withRetry_loop_keeps:
  assumes fn: "\<And>s. lastUserMessage (snd (fn s)) = lastUserMessage s"
    and sl: "\<And>ms s. lastUserMessage (sl ms s) = lastUserMessage s"
  shows "lastUserMessage (snd (withRetry_loop fn sl mx left st)) = lastUserMessage st"
proof (induction left arbitrary: st)
  case 0
  show ?case using fn[of st] by simp
next
  case (Suc left)
  obtain r s' where f: "fn st = (r, s')" by (cases "fn st")
  with fn[of st] have s': "lastUserMessage s' = lastUserMessage st" by simp
  show ?case
    using f s' Suc.IH sl by (cases r) (simp_all)
qed

lemma run_calls_extends:
  "prefix (events st) (events (snd (snd (run_calls env calls rs st))))"
proof (induction calls arbitrary: rs st)
  case Nil
  then show ?case by simp
next
  case (Cons call rest)
  show ?case
  proof (cases "interrupted st")
    case True
    then show ?thesis by simp
  next
    case False
    define st1 where "st1 = append_entry env ToolCall (json_call env call) None st"
    obtain result st2 where ex: "execute env call st1 = (result, st2)"
      by (cases "execute env call st1")
    define st3 where "st3 = append_entry env ToolResult result (Some [(''tool'', name call)]) st2"
    have e3: "events st3 = events st @ [ExecuteTool call]"
      using ex by (auto simp: execute_def st1_def st3_def)
    show ?thesis
    proof (cases "track_action call result st3")
      case (Inl msg)
      with False ex e3 show ?thesis by (simp add: st1_def[symmetric] st3_def[symmetric])
    next
      case (Inr st4)
      have e4: "events st4 = events st @ [ExecuteTool call]"
        using track_action_fields(1)[OF Inr] e3 by simp
      have "prefix (events st4)
              (events (snd (snd (run_calls env rest (rs @ [(name call, result)]) st4))))"
        by (rule Cons.IH)
      then have "prefix (events st)
              (events (snd (snd (run_calls env rest (rs @ [(name call, result)]) st4))))"
        unfolding e4 by (rule append_prefixD)
      with False ex Inr show ?thesis by (simp add: st1_def[symmetric] st3_def[symmetric])
    qed
  qed
qed

lemma withRetry_extends:
  assumes fn: "\<And>s. events (snd (fn s)) = events s @ [e]"
  shows "prefix (events st) (events (snd (withRetry fn (sleep env) mx st)))"
proof -
  from withRetry_loop_events[of fn e "sleep env" mx mx st, OF fn send_events(3)]
  show ?thesis unfolding withRetry_def by (auto simp: prefix_def)
qed

lemma after_calls_extends:
  "prefix (events st) (events (snd (after_calls env calls rs st)))"
proof -
  have "prefix (events (st\<lparr>toolCallCount := 0\<rparr>))
          (events (snd (withRetry (sendFunctionResults env rs) (sleep env) 5 (st\<lparr>toolCallCount := 0\<rparr>))))"
    by (rule withRetry_extends) simp
  then obtain es where
    "events (snd (withRetry (sendFunctionResults env rs) (sleep env) 5 (st\<lparr>toolCallCount := 0\<rparr>))) = events st @ es"
    by (auto simp: prefix_def)
  then show ?thesis
    by (auto simp: after_calls_def Let_def prefix_def split: list.splits)
qed

lemma batch_extends:
  "prefix (events st) (events (snd (batch env r st)))"
proof (cases r)
  case (Text answer)
  then show ?thesis by (simp add: batch_def)
next
  case (FunctionCalls calls answer)
  obtain en rs st1 where rc: "run_calls env calls [] st = (en, rs, st1)"
    by (cases "run_calls env calls [] st")
  have p1: "prefix (events st) (events st1)"
    using run_calls_extends[of st env calls "[]"] rc by simp
  have p2: "prefix (events st1) (events (snd (after_calls env calls rs st1)))"
    by (rule after_calls_extends)
  from p1 p2 have "prefix (events st) (events (snd (after_calls env calls rs st1)))"
    by (rule prefix_order.trans)
  with p1 rc FunctionCalls show ?thesis
    by (cases en) (simp_all add: batch_def)
qed

lemma processResponse_extends:
  "prefix (events st) (events (snd (processResponse fuel env r st)))"
proof (induction fuel arbitrary: r st)
  case 0
  then show ?case by simp
next
  case (Suc fuel)
  obtain q st1 where b: "batch env r st = (q, st1)" by (cases "batch env r st")
  have p1: "prefix (events st) (events st1)" using batch_extends[of st env r] b by simp
  have tail: "prefix (events st1)
                (events (snd (case withRetry fn (sleep env) 5 st1 of
                    (Inl msg, st2) \<Rightarrow> on_error env label msg st2
                  | (Inr nextResponse, st2) \<Rightarrow>
                      (case processResponse fuel env nextResponse st2 of
                         (Thrown msg, st3) \<Rightarrow> on_error env label msg st3
                       | (Returned, st3) \<Rightarrow> (Returned, st3)
                       | (OutOfFuel, st3) \<Rightarrow> (OutOfFuel, st3)))))"
    if fn: "\<And>s. events (snd (fn s)) = events s @ [e]" for fn e label
  proof -
    obtain o2 st2 where w: "withRetry fn (sleep env) 5 st1 = (o2, st2)"
      by (cases "withRetry fn (sleep env) 5 st1")
    have p2: "prefix (events st1) (events st2)"
      using withRetry_extends[of fn e st1 env 5, OF fn] w by simp
    show ?thesis
    proof (cases o2)
      case (Inl msg)
      with w p2 show ?thesis by simp
    next
      case (Inr nextResponse)
      obtain s3 st3 where pr: "processResponse fuel env nextResponse st2 = (s3, st3)"
        by (cases "processResponse fuel env nextResponse st2")
      have "prefix (events st2) (events st3)"
        using Suc.IH[of st2 nextResponse] pr by simp
      with p2 have "prefix (events st1) (events st3)" by (rule prefix_order.trans)
      with w Inr pr show ?thesis by (cases s3) simp_all
    qed
  qed
  show ?case
  proof (cases q)
    case (Finish s)
    with b p1 show ?thesis by simp
  next
    case (Results functionResults)
    have eq: "processResponse (Suc fuel) env r st =
          (case withRetry (sendFunctionResults env functionResults) (sleep env) 5 st1 of
                    (Inl msg, st2) \<Rightarrow> on_error env ''Tool result error: '' msg st2
                  | (Inr nextResponse, st2) \<Rightarrow>
                      (case processResponse fuel env nextResponse st2 of
                         (Thrown msg, st3) \<Rightarrow> on_error env ''Tool result error: '' msg st3
                       | (Returned, st3) \<Rightarrow> (Returned, st3)
                       | (OutOfFuel, st3) \<Rightarrow> (OutOfFuel, st3)))"
      using b Results by simp
    show ?thesis unfolding eq
      using p1 tail[of "sendFunctionResults env functionResults" _ "''Tool result error: ''",
                    OF send_events(1)]
      by (rule prefix_order.trans)
  next
    case (Continuation message)
    have eq: "processResponse (Suc fuel) env r st =
          (case withRetry (sendMessage env message) (sleep env) 5 st1 of
                    (Inl msg, st2) \<Rightarrow> on_error env ''Error after compact: '' msg st2
                  | (Inr nextResponse, st2) \<Rightarrow>
                      (case processResponse fuel env nextResponse st2 of
                         (Thrown msg, st3) \<Rightarrow> on_error env ''Error after compact: '' msg st3
                       | (Returned, st3) \<Rightarrow> (Returned, st3)
                       | (OutOfFuel, st3) \<Rightarrow> (OutOfFuel, st3)))"
      using b Continuation by simp
    show ?thesis unfolding eq
      using p1 tail[of "sendMessage env message" _ "''Error after compact: ''",
                    OF send_events(2)]
      by (rule prefix_order.trans)
  qed
qed


lemma case_list_nonempty: "xs \<noteq> [] \<Longrightarrow> (case xs of [] \<Rightarrow> a | y # ys \<Rightarrow> b) = b"
  by (cases xs) auto

lemma after_calls_compacts:
  assumes ni: "\<not> interrupted st1"
    and th: "COMPACT_THRESHOLD \<le> toolCallCount st1 + length calls"
    and ne: "rs \<noteq> []"
  shows "\<exists>sent task summary st5 st7.
           after_calls env calls rs st1 = (Continuation (continuationMsg env st5 (last rs)), st7) \<and>
           lastUserMessage st5 = lastUserMessage st1 \<and>
           events st7 = events st1 @ sent @ [StartChat, MemorySave ''compaction'' task summary] \<and>
           set sent \<subseteq> insert (SendFunctionResults rs) (range Sleep)"
proof -
  define s3 where "s3 = st1\<lparr>toolCallCount := 0\<rparr>"
  define st4 where "st4 = snd (withRetry (sendFunctionResults env rs) (sleep env) 5 s3)"
  define st5 where "st5 = log_event StartChat st4"
  define st6 where "st6 = append_entry env System
                              (''Context compacted after '' @ show_nat COMPACT_THRESHOLD @
                               '' tool calls.'') None st5"
  define actionList where "actionList = join ''; '' (slice_from (- 20) (completedActions st6))"
  define summary where "summary = (if actionList = [] then ''Context compacted (no tracked actions)''
                                  else actionList)"
  define st7 where "st7 = log_event (MemorySave ''compaction'' (take 200 (lastUserMessage st6)) summary) st6"
  from withRetry_loop_events[of "sendFunctionResults env rs" "SendFunctionResults rs" "sleep env" 5 5 s3,
        OF send_events(1) send_events(3)]
  obtain es where es: "events st4 = events s3 @ SendFunctionResults rs # es"
    and sub: "set es \<subseteq> insert (SendFunctionResults rs) (range Sleep)"
    unfolding st4_def withRetry_def by blast
  have lum: "lastUserMessage st4 = lastUserMessage s3"
    unfolding st4_def withRetry_def
    by (rule withRetry_loop_keeps) simp_all
  have ac: "after_calls env calls rs st1 = (Continuation (continuationMsg env st5 (last rs)), st7)"
    using ni th ne
    unfolding after_calls_def Let_def
    by (simp add: case_list_nonempty s3_def st4_def st5_def st6_def actionList_def summary_def st7_def)
  have e7: "events st7 = events st1 @ (SendFunctionResults rs # es) @
              [StartChat, MemorySave ''compaction'' (take 200 (lastUserMessage st6)) summary]"
    by (simp add: st7_def st6_def st5_def es s3_def)
  have l5: "lastUserMessage st5 = lastUserMessage st1"
    by (simp add: st5_def lum s3_def)
  have "set (SendFunctionResults rs # es) \<subseteq> insert (SendFunctionResults rs) (range Sleep)"
    using sub by auto
  with ac e7 l5 show ?thesis by blast
qed

text \<open>
  Claim C2. Take a call of \<open>processResponse\<close> on a response with calls, in which the
  loop runs through all of them, the interrupt flag is not set before or after the loop,
  and the counter plus the number of calls reaches the threshold of 12. Then, after the
  calls are executed, the pending results are sent (and retried) to the old chat, a
  fresh chat is started, the memory entry is saved, and the first message sent to the
  fresh chat contains the text of \<open>lastUserMessage\<close> and the name of the last call of
  the batch.
\<close>

theorem compaction_continuation:
  assumes rc: "run_calls env calls [] st = (Completed, functionResults, st1)"
    and ne: "calls \<noteq> []"
    and ni: "\<not> interrupted st" and ni1: "\<not> interrupted st1"
    and th: "COMPACT_THRESHOLD \<le> toolCallCount st + length calls"
  shows "\<exists>sent saved message later.
           events (snd (processResponse (Suc fuel) env (FunctionCalls calls answer) st)) =
             events st @ map ExecuteTool calls @ sent @ [StartChat, saved, SendMessage message] @ later \<and>
           set sent \<subseteq> insert (SendFunctionResults functionResults) (range Sleep) \<and>
           (\<exists>task summary. saved = MemorySave ''compaction'' task summary) \<and>
           str_includes message (lastUserMessage st) \<and>
           str_includes message (name (last calls))"
proof -
  from run_calls_completed[OF rc] have
    e1: "events st1 = events st @ map ExecuteTool calls"
    and l1: "lastUserMessage st1 = lastUserMessage st"
    and t1: "toolCallCount st1 = toolCallCount st"
    and names: "map fst functionResults = map name calls" by simp_all
  from names ne have rne: "functionResults \<noteq> []" by auto
  have "fst (last functionResults) = last (map fst functionResults)"
    using rne by (simp add: last_map)
  also have "\<dots> = name (last calls)" unfolding names using ne by (simp add: last_map)
  finally have lastname: "fst (last functionResults) = name (last calls)" .
  from after_calls_compacts[OF ni1 _ rne, of calls env] th t1
  obtain sent task summary st5 st7 where
    ac: "after_calls env calls functionResults st1 =
           (Continuation (continuationMsg env st5 (last functionResults)), st7)"
    and l5: "lastUserMessage st5 = lastUserMessage st1"
    and e7: "events st7 = events st1 @ sent @ [StartChat, MemorySave ''compaction'' task summary]"
    and sub: "set sent \<subseteq> insert (SendFunctionResults functionResults) (range Sleep)"
    by auto
  define message where "message = continuationMsg env st5 (last functionResults)"
  have b: "batch env (FunctionCalls calls answer) st = (Continuation message, st7)"
    using ni rc ac by (simp add: batch_def message_def)
  obtain o2 st8 where w: "withRetry (sendMessage env message) (sleep env) 5 st7 = (o2, st8)"
    by (cases "withRetry (sendMessage env message) (sleep env) 5 st7")
  from withRetry_loop_events[of "sendMessage env message" "SendMessage message" "sleep env" 5 5 st7,
        OF send_events(2) send_events(3)] w
  obtain es where e8: "events st8 = events st7 @ SendMessage message # es"
    unfolding withRetry_def by auto
  let ?final = "snd (processResponse (Suc fuel) env (FunctionCalls calls answer) st)"
  have "prefix (events st8) (events ?final)"
  proof (cases o2)
    case (Inl msg)
    with b w show ?thesis by simp
  next
    case (Inr freshResponse)
    obtain s3 st9 where pr: "processResponse fuel env freshResponse st8 = (s3, st9)"
      by (cases "processResponse fuel env freshResponse st8")
    have "prefix (events st8) (events st9)"
      using processResponse_extends[of st8 fuel env freshResponse] pr by simp
    with b w Inr pr show ?thesis by (cases s3) simp_all
  qed
  then obtain later' where "events ?final = events st8 @ later'" by (auto simp: prefix_def)
  then have ev: "events ?final =
      events st @ map ExecuteTool calls @ sent @
        [StartChat, MemorySave ''compaction'' task summary, SendMessage message] @ (es @ later')"
    by (simp add: e8 e7 e1)
  have inc: "str_includes message (lastUserMessage st) \<and> str_includes message (name (last calls))"
    using continuationMsg_includes[of env st5 "last functionResults"]
    by (simp add: message_def l5 l1 lastname)
  from ev sub inc show ?thesis by blast
qed

theorem compaction_continuation_witness:
  "\<exists>sent saved message later.
     events (snd (processResponse (Suc 0) example_world
                    (FunctionCalls [example_call ''chrome_click''] None) example_cli)) =
       [ExecuteTool (example_call ''chrome_click'')] @ sent @
       [StartChat, saved, SendMessage message] @ later \<and>
     str_includes message ''star the repo'' \<and> str_includes message ''chrome_click''"
proof -
  let ?r = "run_calls example_world [example_call ''chrome_click''] [] example_cli"
  have c: "fst ?r = Completed" by code_simp
  have rc: "?r = (Completed, fst (snd ?r), snd (snd ?r))"
    using c by (metis prod.collapse)
  have ne: "[example_call ''chrome_click''] \<noteq> []" by simp
  have ni: "\<not> interrupted example_cli" by code_simp
  have ni1: "\<not> interrupted (snd (snd ?r))" by code_simp
  have th: "COMPACT_THRESHOLD \<le> toolCallCount example_cli + length [example_call ''chrome_click'']"
    by code_simp
  from compaction_continuation[OF rc ne ni ni1 th, of 0 None]
  obtain sent saved message later where
    "events (snd (processResponse (Suc 0) example_world
                    (FunctionCalls [example_call ''chrome_click''] None) example_cli)) =
       events example_cli @ map ExecuteTool [example_call ''chrome_click''] @ sent @
       [StartChat, saved, SendMessage message] @ later"
    and "str_includes message (lastUserMessage example_cli)"
    and "str_includes message (name (last [example_call ''chrome_click'']))"
    by blast
  then have
    "events (snd (processResponse (Suc 0) example_world
                    (FunctionCalls [example_call ''chrome_click''] None) example_cli)) =
       [ExecuteTool (example_call ''chrome_click'')] @ sent @
       [StartChat, saved, SendMessage message] @ later \<and>
     str_includes message ''star the repo'' \<and> str_includes message ''chrome_click''"
    by (simp add: example_cli_def example_call_def)
  then show ?thesis by blast
qed

text \<open>
  Claim C3. If the loop has run through the first \<open>k\<close> calls of a batch of more than
  \<open>k\<close> calls and the interrupt flag is set in the state it has then reached, then
  \<open>processResponse\<close> returns in exactly that state: the trace holds the executions of
  the first \<open>k\<close> calls and nothing else, so none of the remaining calls is executed
  and nothing is sent to the model.
\<close>

theorem interrupt_stops_batch:
  assumes "k < length calls"
    and "run_calls env (take k calls) [] st = (Completed, functionResults, st_k)"
    and "interrupted st_k"
  shows "processResponse (Suc fuel) env (FunctionCalls calls answer) st = (Returned, st_k) \<and>
         events st_k = events st @ map ExecuteTool (take k calls)"
proof -
  have ev: "events st_k = events st @ map ExecuteTool (take k calls)"
    using run_calls_completed[OF assms(2)] by simp
  obtain call rest where dr: "drop k calls = call # rest"
    using assms(1) by (cases "drop k calls") auto
  have stop: "run_calls env (drop k calls) functionResults st_k = (Skipped, functionResults, st_k)"
    using assms(3) by (simp add: dr)
  have "run_calls env (take k calls @ drop k calls) [] st = (Skipped, functionResults, st_k)"
    unfolding run_calls_append using assms(2) stop by simp
  then have all: "run_calls env calls [] st = (Skipped, functionResults, st_k)" by simp
  have "batch env (FunctionCalls calls answer) st = (Finish Returned, st_k)"
  proof (cases "interrupted st")
    case True
    have "take k calls = []"
    proof (cases "take k calls")
      case Nil then show ?thesis .
    next
      case (Cons c cs)
      with True assms(2) show ?thesis by simp
    qed
    with assms(2) have "st_k = st" by simp
    with True show ?thesis by (simp add: batch_def)
  next
    case False
    with all show ?thesis by (simp add: batch_def)
  qed
  then have "processResponse (Suc fuel) env (FunctionCalls calls answer) st = (Returned, st_k)"
    by simp
  with ev show ?thesis by simp
qed


theorem interrupt_stops_batch_witness:
  "fst (processResponse (Suc 0) interrupting_world (FunctionCalls five_calls None) example_cli) =
     Returned \<and>
   events (snd (processResponse (Suc 0) interrupting_world (FunctionCalls five_calls None)
                  example_cli)) =
     [ExecuteTool (example_call ''chrome_get_page_text''), ExecuteTool (example_call ''chrome_click'')]"
proof -
  let ?r = "run_calls interrupting_world (take 2 five_calls) [] example_cli"
  have c: "fst ?r = Completed" by code_simp
  have rc: "?r = (Completed, fst (snd ?r), snd (snd ?r))"
    using c by (metis prod.collapse)
  have k: "2 < length five_calls" by code_simp
  have i: "interrupted (snd (snd ?r))" by code_simp
  from interrupt_stops_batch[OF k rc i, of 0 None]
  have "processResponse (Suc 0) interrupting_world (FunctionCalls five_calls None) example_cli =
          (Returned, snd (snd ?r))"
    and "events (snd (snd ?r)) = events example_cli @ map ExecuteTool (take 2 five_calls)"
    by simp_all
  then show ?thesis by (simp add: example_cli_def five_calls_def)
qed

end
